theory Spec2Isabelle
  imports Complex_Main "HOL-Library.Word"
begin

section \<open>JavaScript strings\<close>

text \<open>
  A JavaScript string is a sequence of 16-bit code units; \<open>length\<close> counts code units and
  \<open>charCodeAt\<close> reads one of them as a number between 0 and 65535.  String literals of
  the source are written through \<open>js\<close>, which widens each byte of a HOL literal.
\<close>

type_synonym jsstring = "16 word list"

definition js :: "string \<Rightarrow> jsstring" where
  "js s = map (\<lambda>c. of_nat (of_char c)) s"

definition isWhiteSpace :: "16 word \<Rightarrow> bool" where
  \<comment> \<open>WhiteSpace and LineTerminator of ECMAScript, what \<open>trim\<close> and \<open>parseInt\<close> strip\<close>
  "isWhiteSpace c =
     (c \<in> set [0x9, 0xA, 0xB, 0xC, 0xD, 0x20, 0xA0, 0x1680, 0x2028, 0x2029, 0x202F,
                0x205F, 0x3000, 0xFEFF]
      \<or> (0x2000 \<le> c \<and> c \<le> 0x200A))"

definition trim :: "jsstring \<Rightarrow> jsstring" where
  "trim s = rev (dropWhile isWhiteSpace (rev (dropWhile isWhiteSpace s)))"

definition is_digit :: "16 word \<Rightarrow> bool" where
  "is_digit c = (0x30 \<le> c \<and> c \<le> 0x39)"

text \<open>
  Number to string, as a template literal does it, for the integers the program prints
  (counters and years, far below the \<open>10\<^sup>2\<^sup>1\<close> where JavaScript switches to exponent
  notation): the decimal digits, with a minus sign for a negative number.
\<close>

fun string_of_nat :: "nat \<Rightarrow> jsstring" where
  "string_of_nat n =
     (if n < 10 then [0x30 + of_nat n]
      else string_of_nat (n div 10) @ [0x30 + of_nat (n mod 10)])"

declare string_of_nat.simps [simp del]

definition string_of_int :: "int \<Rightarrow> jsstring" where
  "string_of_int i = (if i < 0 then js ''-'' @ string_of_nat (nat (- i)) else string_of_nat (nat i))"

text \<open>
  \<open>parseInt(s, 10)\<close>: leading white space is skipped, one sign is read, then the longest
  run of decimal digits; \<open>None\<close> is \<open>NaN\<close> (no digit).  The value is exact below \<open>2\<^sup>5\<^sup>3\<close>.
\<close>

definition parseInt10 :: "jsstring \<Rightarrow> int option" where
  "parseInt10 s =
     (let s1 = dropWhile isWhiteSpace s;
          neg = (s1 \<noteq> [] \<and> hd s1 = 0x2D);
          s2 = (if s1 \<noteq> [] \<and> (hd s1 = 0x2D \<or> hd s1 = 0x2B) then tl s1 else s1);
          ds = takeWhile is_digit s2
      in if ds = [] then None
         else Some ((if neg then - 1 else 1) * int (foldl (\<lambda>a d. 10 * a + (unat d - 48)) 0 ds)))"

text \<open>\<open>x || ''\<close> on an optional string: \<open>undefined\<close> and the empty string are falsy.\<close>

definition or_empty :: "jsstring option \<Rightarrow> jsstring" where
  "or_empty x = (case x of None \<Rightarrow> [] | Some s \<Rightarrow> s)"

definition falsy :: "jsstring option \<Rightarrow> bool" where
  "falsy x = (x = None \<or> x = Some [])"

section \<open>Embedding encoder (nobel-prize-redis/uploadnobeldata.js)\<close>

text \<open>
  \<^verbatim>\<open>
  function someVectorEmbeddingFunction(fullName) {
    const vector = new Array(128).fill(0);
    for (let i = 0; i < Math.min(fullName.length, 128); i++) {
      vector[i] = fullName.charCodeAt(i) / 255;
    }
    return vector;
  }
  \<close>
  The entries are JavaScript numbers.  The model keeps the exact quotient; the double
  the program stores is that quotient rounded to nearest, and rounding is monotone and
  leaves 0 and 1 fixed, so an order comparison of an entry with 0 or 1 has the same
  outcome on both.
\<close>

function embed_loop :: "nat \<Rightarrow> jsstring \<Rightarrow> real list \<Rightarrow> real list" where
  "embed_loop i fullName vector =
     (if i < min (length fullName) 128
      then embed_loop (i + 1) fullName (vector[i := real (unat (fullName ! i)) / 255])
      else vector)"
  by pat_completeness auto
termination
  by (relation "measure (\<lambda>(i, fullName, vector). min (length fullName) 128 - i)") auto

definition someVectorEmbeddingFunction :: "jsstring \<Rightarrow> real list" where
  "someVectorEmbeddingFunction fullName = embed_loop 0 fullName (replicate 128 0)"

declare embed_loop.simps [simp del]

section \<open>The award records of the source feed\<close>

text \<open>
  A prize of the feed carries \<open>year\<close> and \<open>category\<close> as strings and an optional array
  of laureates; every field of a laureate may be absent (\<open>undefined\<close>).
\<close>

record LaureateRef =
  ref_id :: "jsstring option"
  firstname :: "jsstring option"
  surname :: "jsstring option"
  motivation :: "jsstring option"
  share :: "jsstring option"

record AwardRecord =
  year :: jsstring
  category :: jsstring
  laureates :: "LaureateRef list option"

section \<open>The document store seen from ingestion\<close>

text \<open>
  \<open>client.json.set\<close> either stores the document or throws.  Which calls throw is not
  decided by the program, so the store carries a script \<open>outcomes\<close>: the n-th call of a
  run fails iff the n-th entry is \<open>True\<close>, and calls beyond the script succeed.  Every
  failure pattern of a sequential run is some script.  \<open>calls\<close> records the key of each
  call, \<open>written\<close> the documents stored, \<open>console\<close> what the program printed.
\<close>

datatype exn = SyntaxError | TypeError | StoreError | ValidationError | RangeError

datatype log_entry =
    RetryingJsonSet jsstring nat
  | FailedToSetKey jsstring
  | ValidationErrorForLaureate
  | InvalidYearSkippingLaureate
  | UploadingLaureateData jsstring
  | UploadedLaureate jsstring

record 'd store =
  outcomes :: "bool list"
  calls :: "jsstring list"
  written :: "(jsstring \<times> 'd) list"
  console :: "log_entry list"

definition json_set :: "'d store \<Rightarrow> jsstring \<Rightarrow> 'd \<Rightarrow> exn option \<times> 'd store" where
  "json_set st key data =
     (let st1 = st\<lparr>outcomes := tl (outcomes st), calls := calls st @ [key]\<rparr>
      in if outcomes st \<noteq> [] \<and> hd (outcomes st) then (Some StoreError, st1)
         else (None, st1\<lparr>written := written st1 @ [(key, data)]\<rparr>))"

definition console_log :: "log_entry \<Rightarrow> 'd store \<Rightarrow> 'd store" where
  "console_log e st = st\<lparr>console := console st @ [e]\<rparr>"

section \<open>Layout A: one document per prize (uploadnobeldata.js)\<close>

fun join :: "jsstring \<Rightarrow> jsstring list \<Rightarrow> jsstring" where
  "join sep [] = []"
| "join sep [x] = x"
| "join sep (x # y # r) = x @ sep @ join sep (y # r)"

definition createVectorField :: "LaureateRef list \<Rightarrow> jsstring" where
  "createVectorField ls =
     join (js '' | '')
       (map (\<lambda>laureate. trim (or_empty (firstname laureate) @ js '' '' @ or_empty (surname laureate))) ls)"

record PrizeDocument =
  doc_year :: "int option"
  doc_category :: jsstring
  doc_laureates :: "LaureateRef list option"
  vectorField :: jsstring

text \<open>
  \<open>dataToSave\<close> is the prize with \<open>vectorField\<close> added and \<open>year\<close> replaced by
  \<open>parseInt(prize.year, 10)\<close> (\<open>None\<close> is \<open>NaN\<close>).
\<close>

definition dataToSave :: "AwardRecord \<Rightarrow> PrizeDocument" where
  "dataToSave prize =
     \<lparr>doc_year = parseInt10 (year prize),
      doc_category = category prize,
      doc_laureates = laureates prize,
      vectorField = createVectorField (case laureates prize of None \<Rightarrow> [] | Some ls \<Rightarrow> ls)\<rparr>"

definition keyBase_of :: "AwardRecord \<Rightarrow> jsstring" where
  "keyBase_of prize = js ''prize:'' @ year prize @ js '':'' @ category prize"

definition counter_of :: "(jsstring \<rightharpoonup> nat) \<Rightarrow> jsstring \<Rightarrow> nat" where
  "counter_of keyCounters keyBase = (case keyCounters keyBase of None \<Rightarrow> 0 | Some n \<Rightarrow> n)"

text \<open>
  The loop of \<open>uploadDataToRedis\<close>.  \<open>keyCounters\<close> is the object of counters, a map from
  key bases to numbers; \<open>!keyCounters[keyBase]\<close> holds for a missing entry and for 0.  The
  write is not guarded: when \<open>client.json.set\<close> throws, the exception leaves the loop.
\<close>

fun upload_loop_A ::
  "(jsstring \<rightharpoonup> nat) \<Rightarrow> PrizeDocument store \<Rightarrow> AwardRecord list
   \<Rightarrow> exn option \<times> PrizeDocument store" where
  "upload_loop_A keyCounters st [] = (None, st)"
| "upload_loop_A keyCounters st (prize # rest) =
     (let keyBase = keyBase_of prize;
          kc1 = (if counter_of keyCounters keyBase = 0 then keyCounters(keyBase \<mapsto> 1)
                 else keyCounters);
          key = keyBase @ js '':'' @ string_of_nat (counter_of kc1 keyBase);
          kc2 = kc1(keyBase \<mapsto> counter_of kc1 keyBase + 1)
      in case json_set st key (dataToSave prize) of
           (Some e, st') \<Rightarrow> (Some e, st')
         | (None, st') \<Rightarrow> upload_loop_A kc2 st' rest)"

definition uploadDataToRedis_A ::
  "AwardRecord list \<Rightarrow> PrizeDocument store \<Rightarrow> exn option \<times> PrizeDocument store" where
  "uploadDataToRedis_A filteredData client = upload_loop_A Map.empty client filteredData"

section \<open>Layout B: one document per laureate (nobel-prize-redis/uploadnobeldata.js)\<close>

definition generateLaureateVector :: "LaureateRef \<Rightarrow> real list" where
  "generateLaureateVector laureate =
     someVectorEmbeddingFunction
       (trim (or_empty (firstname laureate) @ js '' '' @ or_empty (surname laureate)))"

definition validateLaureate :: "LaureateRef \<Rightarrow> exn + LaureateRef" where
  "validateLaureate laureate =
     (if falsy (firstname laureate) \<and> falsy (surname laureate) then Inl ValidationError
      else if falsy (motivation laureate) then Inr (laureate\<lparr>motivation := Some []\<rparr>)
      else Inr laureate)"

record LaureateDocument =
  ld_year :: int
  ld_category :: jsstring
  ld_motivation :: jsstring
  ld_vector :: jsstring

text \<open>
  \<open>safeJsonSet\<close> calls itself from its \<open>catch\<close> block while \<open>retries < MAX_RETRIES\<close>.
  The first component of the result is the exception that leaves the function.
\<close>

function safeJsonSet ::
  "'d store \<Rightarrow> jsstring \<Rightarrow> 'd \<Rightarrow> nat \<Rightarrow> exn option \<times> 'd store" where
  "safeJsonSet client key data retries =
     (case json_set client key data of
        (None, st) \<Rightarrow> (None, st)
      | (Some error, st) \<Rightarrow>
          if retries < 3
          then safeJsonSet (console_log (RetryingJsonSet key (retries + 1)) st) key data (retries + 1)
          else (None, console_log (FailedToSetKey key) st))"
  by pat_completeness auto
termination
  by (relation "measure (\<lambda>(client, key, data, retries). 3 - retries)") auto

declare safeJsonSet.simps [simp del]

text \<open>
  The two nested loops of \<open>uploadDataToRedis\<close>, with the running \<open>laureateIndex\<close>,
  from the first prize to the last; connecting to the store and declaring the index
  come before and after them.  The loops take \<open>encodeVector\<close>, which turns the vector
  into the string stored in the document, as a parameter; its own model follows in the
  section on the binary encoding.  The first component of a result is the exception
  that reaches the \<open>catch\<close> around the whole upload.
\<close>

fun laureate_loop ::
  "(real list \<Rightarrow> jsstring) \<Rightarrow> AwardRecord \<Rightarrow> nat \<Rightarrow> LaureateDocument store
   \<Rightarrow> LaureateRef list \<Rightarrow> exn option \<times> nat \<times> LaureateDocument store" where
  "laureate_loop encodeVector prize laureateIndex st [] = (None, laureateIndex, st)"
| "laureate_loop encodeVector prize laureateIndex st (laureate0 # rest) =
     (case validateLaureate laureate0 of
        Inl validationError \<Rightarrow>
          laureate_loop encodeVector prize laureateIndex
            (console_log ValidationErrorForLaureate st) rest
      | Inr laureate \<Rightarrow>
          (let key = js ''laureate:'' @ year prize @ js '':'' @ category prize @ js '':''
                       @ string_of_nat laureateIndex;
               vector = generateLaureateVector laureate;
               encodedVector = encodeVector vector
           in case parseInt10 (year prize) of
                None \<Rightarrow>
                  laureate_loop encodeVector prize laureateIndex
                    (console_log InvalidYearSkippingLaureate st) rest
              | Some parsedYear \<Rightarrow>
                  (case safeJsonSet (console_log (UploadingLaureateData key) st) key
                          \<lparr>ld_year = parsedYear, ld_category = category prize,
                           ld_motivation = or_empty (motivation laureate),
                           ld_vector = encodedVector\<rparr> 0 of
                     (Some e, st') \<Rightarrow> (Some e, laureateIndex, st')
                   | (None, st') \<Rightarrow>
                       laureate_loop encodeVector prize (laureateIndex + 1)
                         (console_log (UploadedLaureate key) st') rest)))"

fun prize_loop ::
  "(real list \<Rightarrow> jsstring) \<Rightarrow> nat \<Rightarrow> LaureateDocument store \<Rightarrow> AwardRecord list
   \<Rightarrow> exn option \<times> nat \<times> LaureateDocument store" where
  "prize_loop encodeVector laureateIndex st [] = (None, laureateIndex, st)"
| "prize_loop encodeVector laureateIndex st (prize # rest) =
     (case laureates prize of
        None \<Rightarrow> prize_loop encodeVector laureateIndex st rest
      | Some ls \<Rightarrow>
          if length ls > 0
          then (case laureate_loop encodeVector prize laureateIndex st ls of
                  (Some e, i, st') \<Rightarrow> (Some e, i, st')
                | (None, i, st') \<Rightarrow> prize_loop encodeVector i st' rest)
          else prize_loop encodeVector laureateIndex st rest)"

definition uploadDataToRedis_B ::
  "(real list \<Rightarrow> jsstring) \<Rightarrow> AwardRecord list \<Rightarrow> LaureateDocument store
   \<Rightarrow> exn option \<times> nat \<times> LaureateDocument store" where
  "uploadDataToRedis_B encodeVector filteredData client =
     prize_loop encodeVector 1 client filteredData"

section \<open>Values read back from the store\<close>

text \<open>
  What \<open>JSON.parse\<close> and \<open>client.json.get\<close> return: a JSON value.  Numbers are only
  copied by the program, never computed on.  A missing property is \<open>undefined\<close>, here
  \<open>None\<close>.  The parser itself is a parameter \<open>parser\<close>, a partial function from text to
  values (\<open>None\<close>: the text is not JSON and \<open>JSON.parse\<close> throws a SyntaxError);
  \<open>JSON.parse(undefined)\<close> parses the text \<open>undefined\<close>, which is not JSON, and throws.
\<close>

datatype json =
    JNull
  | JBool bool
  | JNum rat
  | JStr jsstring
  | JArr "json list"
  | JObj "(jsstring \<times> json) list"

definition JSON_parse :: "(jsstring \<Rightarrow> json option) \<Rightarrow> jsstring option \<Rightarrow> exn + json" where
  "JSON_parse parser text =
     (case text of
        None \<Rightarrow> Inl SyntaxError
      | Some s \<Rightarrow> (case parser s of None \<Rightarrow> Inl SyntaxError | Some v \<Rightarrow> Inr v))"

text \<open>
  Reading one of the properties the handlers use (\<open>id\<close>, \<open>firstname\<close>, \<open>surname\<close>,
  \<open>motivation\<close>, \<open>share\<close>, \<open>year\<close>, \<open>category\<close>, \<open>laureates\<close>): on \<open>null\<close> it throws a
  TypeError, on an object it is the property or \<open>undefined\<close>, on any other value it is
  \<open>undefined\<close> since no prototype defines these names.
\<close>

definition property :: "json \<Rightarrow> jsstring \<Rightarrow> json option" where
  "property v name = (case v of JObj props \<Rightarrow> map_of props name | _ \<Rightarrow> None)"

text \<open>
  \<open>x.toLowerCase()\<close> on a property value: a TypeError unless the value is a string.
  The Unicode case mapping is a parameter \<open>lower\<close>.
\<close>

definition toLowerCase :: "(jsstring \<Rightarrow> jsstring) \<Rightarrow> json option \<Rightarrow> exn + jsstring" where
  "toLowerCase lower v = (case v of Some (JStr s) \<Rightarrow> Inr (lower s) | _ \<Rightarrow> Inl TypeError)"

text \<open>
  \<open>xs.forEach\<close> and \<open>xs.map\<close> exist on arrays only: on every other JSON value the call
  throws a TypeError.
\<close>

definition as_array :: "json \<Rightarrow> exn + json list" where
  "as_array v = (case v of JArr xs \<Rightarrow> Inr xs | _ \<Rightarrow> Inl TypeError)"

fun str_includes :: "jsstring \<Rightarrow> jsstring \<Rightarrow> bool" where
  "str_includes [] needle = (needle = [])"
| "str_includes (c # s) needle = (take (length needle) (c # s) = needle \<or> str_includes s needle)"

text \<open>A loop body that may throw, run over a list with an accumulator, and \<open>map\<close>.\<close>

fun forEach :: "('a \<Rightarrow> 's \<Rightarrow> exn + 's) \<Rightarrow> 'a list \<Rightarrow> 's \<Rightarrow> exn + 's" where
  "forEach body [] acc = Inr acc"
| "forEach body (x # xs) acc =
     (case body x acc of Inl e \<Rightarrow> Inl e | Inr acc' \<Rightarrow> forEach body xs acc')"

fun map_throwing :: "('a \<Rightarrow> exn + 'b) \<Rightarrow> 'a list \<Rightarrow> exn + 'b list" where
  "map_throwing f [] = Inr []"
| "map_throwing f (x # xs) =
     (case f x of
        Inl e \<Rightarrow> Inl e
      | Inr y \<Rightarrow> (case map_throwing f xs of Inl e \<Rightarrow> Inl e | Inr ys \<Rightarrow> Inr (y # ys)))"

section \<open>The store seen from the query service (grpc-service/server/index.js)\<close>

text \<open>
  \<open>redisClient.ft.search\<close> and \<open>redisClient.json.get\<close> are the two operations of the
  store the handlers call; each returns or throws.  A handler returns the list of
  store calls it made and the one call of \<open>callback\<close>: \<open>Ok\<close> for
  \<open>callback(null, response)\<close>, \<open>Failed\<close> for \<open>callback({code, message})\<close>.
\<close>

record document =
  doc_id :: jsstring
  doc_value :: "(jsstring \<times> jsstring) list"

record search_reply =
  total :: nat
  documents :: "document list"

record search_options =
  RETURN :: "jsstring list"
  LIMIT_from :: nat
  LIMIT_size :: nat

datatype store_call =
    FtSearch jsstring jsstring search_options
  | JsonGet "jsstring option"

record redis =
  ft_search :: "jsstring \<Rightarrow> jsstring \<Rightarrow> search_options \<Rightarrow> exn + search_reply"
  json_get :: "jsstring option \<Rightarrow> exn + json"

datatype status = INVALID_ARGUMENT | INTERNAL

datatype 'a reply = Ok 'a | Failed status jsstring

definition field :: "document \<Rightarrow> jsstring \<Rightarrow> jsstring option" where
  "field doc name = map_of (doc_value doc) name"

definition return_fields :: search_options where
  "return_fields =
     \<lparr>RETURN = [js ''$.year'', js ''$.category'', js ''$.laureates''],
      LIMIT_from = 0, LIMIT_size = 1000\<rparr>"

text \<open>
  \<^verbatim>\<open>
  let laureates = [];
  try { laureates = JSON.parse(doc.value['$.laureates']); } catch (parseError) { ... }
  \<close>
\<close>

definition parse_laureates :: "(jsstring \<Rightarrow> json option) \<Rightarrow> document \<Rightarrow> json" where
  "parse_laureates parser doc =
     (case JSON_parse parser (field doc (js ''$.laureates'')) of
        Inl parseError \<Rightarrow> JArr []
      | Inr v \<Rightarrow> v)"

record Laureate =
  l_id :: "json option"
  l_firstname :: "json option"
  l_surname :: "json option"
  l_motivation :: "json option"
  l_share :: "json option"

record Prize =
  p_year :: "jsstring option"
  p_category :: "jsstring option"
  p_laureates :: "Laureate list"

record LaureateDetails =
  d_year :: "jsstring option"
  d_category :: "jsstring option"
  d_id :: "json option"
  d_firstname :: "json option"
  d_surname :: "json option"
  d_motivation :: "json option"
  d_share :: "json option"

record CountLaureatesResponse =
  totalLaureates :: nat
  laureates_found :: "LaureateDetails list"

subsection \<open>GetPrizesByCategory\<close>

definition copy_laureate :: "json \<Rightarrow> exn + Laureate" where
  "copy_laureate laureate =
     (case laureate of
        JNull \<Rightarrow> Inl TypeError
      | _ \<Rightarrow> Inr \<lparr>l_id = property laureate (js ''id''),
                l_firstname = property laureate (js ''firstname''),
                l_surname = property laureate (js ''surname''),
                l_motivation = property laureate (js ''motivation''),
                l_share = property laureate (js ''share'')\<rparr>)"

definition prize_of_document :: "(jsstring \<Rightarrow> json option) \<Rightarrow> document \<Rightarrow> exn + Prize" where
  "prize_of_document parser doc =
     (case as_array (parse_laureates parser doc) of
        Inl e \<Rightarrow> Inl e
      | Inr laureatesList \<Rightarrow>
          (case map_throwing copy_laureate laureatesList of
             Inl e \<Rightarrow> Inl e
           | Inr copied \<Rightarrow>
               Inr \<lparr>p_year = field doc (js ''$.year''),
                    p_category = field doc (js ''$.category''),
                    p_laureates = copied\<rparr>))"


subsection \<open>CountLaureatesByCategoryAndYearRange\<close>

record CountLaureatesRequest =
  req_category :: jsstring
  startYear :: int
  endYear :: int

definition details :: "document \<Rightarrow> json \<Rightarrow> LaureateDetails" where
  "details doc laureate =
     \<lparr>d_year = field doc (js ''$.year''),
      d_category = field doc (js ''$.category''),
      d_id = property laureate (js ''id''),
      d_firstname = property laureate (js ''firstname''),
      d_surname = property laureate (js ''surname''),
      d_motivation = property laureate (js ''motivation''),
      d_share = property laureate (js ''share'')\<rparr>"

definition count_laureate ::
  "document \<Rightarrow> json \<Rightarrow> nat \<times> LaureateDetails list \<Rightarrow> exn + nat \<times> LaureateDetails list" where
  "count_laureate doc laureate acc =
     (case laureate of
        JNull \<Rightarrow> Inl TypeError
      | _ \<Rightarrow> Inr (fst acc + 1, snd acc @ [details doc laureate]))"

definition count_document ::
  "(jsstring \<Rightarrow> json option) \<Rightarrow> document \<Rightarrow> nat \<times> LaureateDetails list
   \<Rightarrow> exn + nat \<times> LaureateDetails list" where
  "count_document parser doc acc =
     (case as_array (parse_laureates parser doc) of
        Inl e \<Rightarrow> Inl e
      | Inr laureatesList \<Rightarrow> forEach (count_laureate doc) laureatesList acc)"

definition CountLaureatesByCategoryAndYearRange ::
  "redis \<Rightarrow> (jsstring \<Rightarrow> json option) \<Rightarrow> CountLaureatesRequest
   \<Rightarrow> store_call list \<times> CountLaureatesResponse reply" where
  "CountLaureatesByCategoryAndYearRange redisClient parser request =
     (if startYear request < 2013 \<or> endYear request > 2023
      then ([], Failed INVALID_ARGUMENT (js ''Year range must be between 2013 and 2023.''))
      else
        (let indexName = js ''idx:prizes'';
             query = js ''@category:{'' @ req_category request @ js ''} @year:[''
                       @ string_of_int (startYear request) @ js '' ''
                       @ string_of_int (endYear request) @ js '']''
         in case ft_search redisClient indexName query return_fields of
              Inl error \<Rightarrow>
                ([FtSearch indexName query return_fields],
                 Failed INTERNAL (js ''Internal server error''))
            | Inr results \<Rightarrow>
                (case forEach (count_document parser) (documents results) (0, []) of
                   Inl error \<Rightarrow>
                     ([FtSearch indexName query return_fields],
                      Failed INTERNAL (js ''Internal server error''))
                 | Inr acc \<Rightarrow>
                     ([FtSearch indexName query return_fields],
                      Ok \<lparr>totalLaureates = fst acc, laureates_found = snd acc\<rparr>))))"

subsection \<open>CountLaureatesByMotivationKeyword\<close>

definition match_laureate ::
  "(jsstring \<Rightarrow> jsstring) \<Rightarrow> jsstring \<Rightarrow> document \<Rightarrow> json
   \<Rightarrow> nat \<times> LaureateDetails list \<Rightarrow> exn + nat \<times> LaureateDetails list" where
  "match_laureate lower keyword doc laureate acc =
     (case laureate of
        JNull \<Rightarrow> Inl TypeError
      | _ \<Rightarrow>
          (case toLowerCase lower (property laureate (js ''motivation'')) of
             Inl e \<Rightarrow> Inl e
           | Inr m \<Rightarrow>
               if str_includes m (lower keyword)
               then Inr (fst acc + 1, snd acc @ [details doc laureate])
               else Inr acc))"

definition match_document ::
  "(jsstring \<Rightarrow> json option) \<Rightarrow> (jsstring \<Rightarrow> jsstring) \<Rightarrow> jsstring \<Rightarrow> document
   \<Rightarrow> nat \<times> LaureateDetails list \<Rightarrow> exn + nat \<times> LaureateDetails list" where
  "match_document parser lower keyword doc acc =
     (case as_array (parse_laureates parser doc) of
        Inl e \<Rightarrow> Inl e
      | Inr laureatesList \<Rightarrow> forEach (match_laureate lower keyword doc) laureatesList acc)"

definition CountLaureatesByMotivationKeyword ::
  "redis \<Rightarrow> (jsstring \<Rightarrow> json option) \<Rightarrow> (jsstring \<Rightarrow> jsstring) \<Rightarrow> jsstring
   \<Rightarrow> store_call list \<times> CountLaureatesResponse reply" where
  "CountLaureatesByMotivationKeyword redisClient parser lower keyword =
     (if keyword = [] \<or> trim keyword = []
      then ([], Failed INVALID_ARGUMENT (js ''Keyword cannot be empty.''))
      else
        (let indexName = js ''idx:prizes'';
             query = js ''@motivation:('' @ keyword @ js '')''
         in case ft_search redisClient indexName query return_fields of
              Inl error \<Rightarrow>
                ([FtSearch indexName query return_fields],
                 Failed INTERNAL (js ''Internal server error''))
            | Inr results \<Rightarrow>
                (case forEach (match_document parser lower keyword) (documents results) (0, []) of
                   Inl error \<Rightarrow>
                     ([FtSearch indexName query return_fields],
                      Failed INTERNAL (js ''Internal server error''))
                 | Inr acc \<Rightarrow>
                     ([FtSearch indexName query return_fields],
                      Ok \<lparr>totalLaureates = fst acc, laureates_found = snd acc\<rparr>))))"

subsection \<open>GetLaureateDetailsByName\<close>

record LaureateInfo =
  i_year :: "json option"
  i_category :: "json option"
  i_motivation :: "json option"

definition name_fields :: search_options where
  "name_fields = \<lparr>RETURN = [js ''$'', js ''__key''], LIMIT_from = 0, LIMIT_size = 1000\<rparr>"

text \<open>The callback of \<open>laureates.find\<close>; \<open>&&\<close> reads the surname only when the first names agree.\<close>

definition laureate_matches ::
  "(jsstring \<Rightarrow> jsstring) \<Rightarrow> jsstring \<Rightarrow> jsstring \<Rightarrow> json \<Rightarrow> exn + bool" where
  "laureate_matches lower firstname_wanted surname_wanted laureate =
     (case laureate of
        JNull \<Rightarrow> Inl TypeError
      | _ \<Rightarrow>
          (case toLowerCase lower (property laureate (js ''firstname'')) of
             Inl e \<Rightarrow> Inl e
           | Inr f \<Rightarrow>
               if f = lower firstname_wanted
               then (case toLowerCase lower (property laureate (js ''surname'')) of
                       Inl e \<Rightarrow> Inl e
                     | Inr s \<Rightarrow> Inr (s = lower surname_wanted))
               else Inr False))"

fun find_throwing :: "('a \<Rightarrow> exn + bool) \<Rightarrow> 'a list \<Rightarrow> exn + 'a option" where
  "find_throwing p [] = Inr None"
| "find_throwing p (x # xs) =
     (case p x of
        Inl e \<Rightarrow> Inl e
      | Inr found \<Rightarrow> if found then Inr (Some x) else find_throwing p xs)"

text \<open>
  Reading the body of a matching document: from the field \<open>$\<close> of the search result
  when it is there and not empty, else by \<open>json.get\<close> on the key.  \<open>None\<close> is the
  \<open>continue\<close> of the two \<open>catch\<close> blocks.  The first component lists the store calls.
\<close>

definition read_document ::
  "redis \<Rightarrow> (jsstring \<Rightarrow> json option) \<Rightarrow> document \<Rightarrow> store_call list \<times> json option" where
  "read_document redisClient parser doc =
     (if field doc (js ''$'') \<noteq> None \<and> field doc (js ''$'') \<noteq> Some []
      then (case JSON_parse parser (field doc (js ''$'')) of
              Inl parseError \<Rightarrow> ([], None)
            | Inr data \<Rightarrow> ([], Some data))
      else (case json_get redisClient (field doc (js ''__key'')) of
              Inl fetchError \<Rightarrow> ([JsonGet (field doc (js ''__key''))], None)
            | Inr rawData \<Rightarrow> ([JsonGet (field doc (js ''__key''))], Some rawData)))"

text \<open>
  What the loop body does with the body of a document: destructuring \<open>null\<close> throws;
  when \<open>laureates\<close> is an array the first matching laureate adds one entry.
\<close>

definition scan_document ::
  "(jsstring \<Rightarrow> jsstring) \<Rightarrow> jsstring \<Rightarrow> jsstring \<Rightarrow> json \<Rightarrow> LaureateInfo list
   \<Rightarrow> exn + LaureateInfo list" where
  "scan_document lower firstname_wanted surname_wanted data laureatesInfo =
     (case data of
        JNull \<Rightarrow> Inl TypeError
      | _ \<Rightarrow>
          (case property data (js ''laureates'') of
             Some (JArr laureatesList) \<Rightarrow>
               (case find_throwing (laureate_matches lower firstname_wanted surname_wanted)
                       laureatesList of
                  Inl e \<Rightarrow> Inl e
                | Inr None \<Rightarrow> Inr laureatesInfo
                | Inr (Some matchingLaureate) \<Rightarrow>
                    Inr (laureatesInfo @
                         [\<lparr>i_year = property data (js ''year''),
                           i_category = property data (js ''category''),
                           i_motivation = property matchingLaureate (js ''motivation'')\<rparr>]))
           | _ \<Rightarrow> Inr laureatesInfo))"

fun name_loop ::
  "redis \<Rightarrow> (jsstring \<Rightarrow> json option) \<Rightarrow> (jsstring \<Rightarrow> jsstring) \<Rightarrow> jsstring \<Rightarrow> jsstring
   \<Rightarrow> document list \<Rightarrow> store_call list \<Rightarrow> LaureateInfo list
   \<Rightarrow> store_call list \<times> (exn + LaureateInfo list)" where
  "name_loop redisClient parser lower fn sn [] trace laureatesInfo = (trace, Inr laureatesInfo)"
| "name_loop redisClient parser lower fn sn (doc # rest) trace laureatesInfo =
     (case read_document redisClient parser doc of
        (made, None) \<Rightarrow> name_loop redisClient parser lower fn sn rest (trace @ made) laureatesInfo
      | (made, Some data) \<Rightarrow>
          (case scan_document lower fn sn data laureatesInfo of
             Inl e \<Rightarrow> (trace @ made, Inl e)
           | Inr info \<Rightarrow> name_loop redisClient parser lower fn sn rest (trace @ made) info))"

definition GetLaureateDetailsByName ::
  "redis \<Rightarrow> (jsstring \<Rightarrow> json option) \<Rightarrow> (jsstring \<Rightarrow> jsstring) \<Rightarrow> jsstring \<Rightarrow> jsstring
   \<Rightarrow> store_call list \<times> LaureateInfo list reply" where
  "GetLaureateDetailsByName redisClient parser lower firstname_wanted surname_wanted =
     (if firstname_wanted = [] \<or> surname_wanted = []
      then ([], Failed INVALID_ARGUMENT (js ''First name and surname are required.''))
      else
        (let indexName = js ''idx:prizes'';
             query = js ''@firstname:=='' @ [0x22] @ firstname_wanted @ [0x22]
                       @ js '' @surname:=='' @ [0x22] @ surname_wanted @ [0x22]
         in case ft_search redisClient indexName query name_fields of
              Inl error \<Rightarrow>
                ([FtSearch indexName query name_fields],
                 Failed INTERNAL (js ''Internal server error''))
            | Inr results \<Rightarrow>
                if total results = 0 then ([FtSearch indexName query name_fields], Ok [])
                else
                  (case name_loop redisClient parser lower firstname_wanted surname_wanted
                          (documents results) [FtSearch indexName query name_fields] [] of
                     (trace, Inl error) \<Rightarrow> (trace, Failed INTERNAL (js ''Internal server error''))
                   | (trace, Inr laureatesInfo) \<Rightarrow> (trace, Ok laureatesInfo))))"

section \<open>Binary encoding of the embedding (nobel-prize-redis/uploadnobeldata.js)\<close>

text \<open>
  \<^verbatim>\<open>
  function encodeVector(vector) {
    const buffer = Buffer.alloc(4 * vector.length);
    vector.forEach((value, index) => { buffer.writeFloatLE(value, index * 4); });
    return buffer.toString('latin1');
  }
  \<close>
  \<open>Buffer.writeFloatLE\<close> rounds the number to IEEE-754 single precision and stores the
  four bytes of that 32-bit pattern, least significant byte first, at the offset; it
  throws a RangeError when the four bytes do not fit.  The rounding, from a number to
  its 32-bit pattern, is the parameter \<open>to_float32\<close>; the byte order and the offsets are
  modelled.  \<open>toString('latin1')\<close> turns each byte into the code unit of the same value.
\<close>

definition float_bytes :: "32 word \<Rightarrow> 8 word list" where
  "float_bytes w = [ucast w, ucast (drop_bit 8 w), ucast (drop_bit 16 w), ucast (drop_bit 24 w)]"

definition writeFloatLE ::
  "(real \<Rightarrow> 32 word) \<Rightarrow> 8 word list \<Rightarrow> real \<Rightarrow> nat \<Rightarrow> exn + 8 word list" where
  "writeFloatLE to_float32 buffer x offset =
     (if offset + 4 \<le> length buffer
      then Inr (take offset buffer @ float_bytes (to_float32 x) @ drop (offset + 4) buffer)
      else Inl RangeError)"

fun encode_loop ::
  "(real \<Rightarrow> 32 word) \<Rightarrow> real list \<Rightarrow> nat \<Rightarrow> 8 word list \<Rightarrow> exn + 8 word list" where
  "encode_loop to_float32 [] index buffer = Inr buffer"
| "encode_loop to_float32 (x # rest) index buffer =
     (case writeFloatLE to_float32 buffer x (index * 4) of
        Inl e \<Rightarrow> Inl e
      | Inr buffer' \<Rightarrow> encode_loop to_float32 rest (index + 1) buffer')"

definition latin1 :: "8 word list \<Rightarrow> jsstring" where
  "latin1 buffer = map ucast buffer"

definition encodeVector :: "(real \<Rightarrow> 32 word) \<Rightarrow> real list \<Rightarrow> exn + jsstring" where
  "encodeVector to_float32 vector =
     (case encode_loop to_float32 vector 0 (replicate (4 * length vector) 0) of
        Inl e \<Rightarrow> Inl e
      | Inr buffer \<Rightarrow> Inr (latin1 buffer))"



section \<open>Observations on a run\<close>

text \<open>
  The number of calls of \<open>client.json.set\<close> that fail in a row from the present state
  on, and the keys the batch announced (\<open>Uploading laureate data for key: ...\<close>).
\<close>

definition leading_failures :: "'d store \<Rightarrow> nat" where
  "leading_failures st = length (takeWhile id (outcomes st))"

fun uploading_keys :: "log_entry list \<Rightarrow> jsstring list" where
  "uploading_keys [] = []"
| "uploading_keys (UploadingLaureateData k # es) = k # uploading_keys es"
| "uploading_keys (e # es) = uploading_keys es"

text \<open>
  A valid award record has a year written in decimal digits.  The counter the loop of
  Layout A reads for a key base, and the keys it assigns to a list of records when no
  write stops it: \<open>assigned_keys\<close> follows \<open>upload_loop_A\<close> without the store.
\<close>

definition valid_AwardRecord :: "AwardRecord \<Rightarrow> bool" where
  "valid_AwardRecord prize = (year prize \<noteq> [] \<and> list_all is_digit (year prize))"

definition current_counter :: "(jsstring \<rightharpoonup> nat) \<Rightarrow> jsstring \<Rightarrow> nat" where
  "current_counter keyCounters keyBase =
     (if counter_of keyCounters keyBase = 0 then 1 else counter_of keyCounters keyBase)"

fun assigned_keys :: "(jsstring \<rightharpoonup> nat) \<Rightarrow> AwardRecord list \<Rightarrow> jsstring list" where
  "assigned_keys keyCounters [] = []"
| "assigned_keys keyCounters (prize # rest) =
     (keyBase_of prize @ js '':'' @ string_of_nat (current_counter keyCounters (keyBase_of prize)))
     # assigned_keys
         (keyCounters(keyBase_of prize \<mapsto> current_counter keyCounters (keyBase_of prize) + 1)) rest"

text \<open>
  The number a string of decimal digits denotes, and the number of writes the loop of
  Layout A performs on \<open>n\<close> records under a script of outcomes: it stops after the first
  write that fails.
\<close>

definition decimal_value :: "jsstring \<Rightarrow> nat" where
  "decimal_value ds = foldl (\<lambda>a d. 10 * a + (unat d - 48)) 0 ds"

fun attempted_writes :: "bool list \<Rightarrow> nat \<Rightarrow> nat" where
  "attempted_writes os 0 = 0"
| "attempted_writes [] (Suc n) = Suc n"
| "attempted_writes (True # os) (Suc n) = 1"
| "attempted_writes (False # os) (Suc n) = Suc (attempted_writes os n)"

text \<open>
  A laureate entry without a usable name, the prize with such entries removed, and two
  stores that agree on everything but what was printed.
\<close>

definition nameless :: "LaureateRef \<Rightarrow> bool" where
  "nameless laureate = (falsy (firstname laureate) \<and> falsy (surname laureate))"

definition without_nameless :: "AwardRecord \<Rightarrow> AwardRecord" where
  "without_nameless prize =
     prize\<lparr>laureates := map_option (filter (\<lambda>laureate. \<not> nameless laureate)) (laureates prize)\<rparr>"

definition same_documents :: "'d store \<Rightarrow> 'd store \<Rightarrow> bool" where
  "same_documents st st' =
     (outcomes st = outcomes st' \<and> calls st = calls st' \<and> written st = written st')"

text \<open>
  For the query service: whether the \<open>$.laureates\<close> text of a document parses, the
  laureate entries it then holds, whether an entry has a string \<open>motivation\<close>, and the
  store whose search answers keep only the documents that parse.
\<close>

definition parses :: "(jsstring \<Rightarrow> json option) \<Rightarrow> document \<Rightarrow> bool" where
  "parses parser doc =
     (case JSON_parse parser (field doc (js ''$.laureates'')) of Inl e \<Rightarrow> False | Inr v \<Rightarrow> True)"

definition laureates_of :: "(jsstring \<Rightarrow> json option) \<Rightarrow> document \<Rightarrow> json list" where
  "laureates_of parser doc = (case parse_laureates parser doc of JArr ls \<Rightarrow> ls | _ \<Rightarrow> [])"


definition has_motivation :: "json \<Rightarrow> bool" where
  "has_motivation laureate =
     (case laureate of
        JNull \<Rightarrow> False
      | _ \<Rightarrow> (case property laureate (js ''motivation'') of Some (JStr s) \<Rightarrow> True | _ \<Rightarrow> False))"



definition keep_documents :: "(document \<Rightarrow> bool) \<Rightarrow> redis \<Rightarrow> redis" where
  "keep_documents keep redisClient =
     redisClient\<lparr>ft_search := \<lambda>indexName query options.
        (case ft_search redisClient indexName query options of
           Inl e \<Rightarrow> Inl e
         | Inr results \<Rightarrow> Inr (results\<lparr>documents := filter keep (documents results)\<rparr>))\<rparr>"

definition readable :: "redis \<Rightarrow> (jsstring \<Rightarrow> json option) \<Rightarrow> document \<Rightarrow> bool" where
  "readable redisClient parser doc = (snd (read_document redisClient parser doc) \<noteq> None)"

text \<open>
  The documents a batch of Layout B builds, with their keys, in order: one for every
  laureate entry that passes \<open>validateLaureate\<close> in a prize whose year parses, numbered by
  the running index from \<open>i\<close>.  \<open>write_documents\<close> hands them to \<open>safeJsonSet\<close> one after
  the other.
\<close>

fun built_laureates ::
  "(real list \<Rightarrow> jsstring) \<Rightarrow> AwardRecord \<Rightarrow> nat \<Rightarrow> LaureateRef list
   \<Rightarrow> (jsstring \<times> LaureateDocument) list" where
  "built_laureates enc prize i [] = []"
| "built_laureates enc prize i (laureate0 # rest) =
     (case validateLaureate laureate0 of
        Inl validationError \<Rightarrow> built_laureates enc prize i rest
      | Inr laureate \<Rightarrow>
          (case parseInt10 (year prize) of
             None \<Rightarrow> built_laureates enc prize i rest
           | Some parsedYear \<Rightarrow>
               (js ''laureate:'' @ year prize @ js '':'' @ category prize @ js '':'' @ string_of_nat i,
                \<lparr>ld_year = parsedYear, ld_category = category prize,
                 ld_motivation = or_empty (motivation laureate),
                 ld_vector = enc (generateLaureateVector laureate)\<rparr>)
               # built_laureates enc prize (i + 1) rest))"

fun built_documents ::
  "(real list \<Rightarrow> jsstring) \<Rightarrow> nat \<Rightarrow> AwardRecord list \<Rightarrow> (jsstring \<times> LaureateDocument) list" where
  "built_documents enc i [] = []"
| "built_documents enc i (prize # rest) =
     (let built = built_laureates enc prize i (case laureates prize of None \<Rightarrow> [] | Some ls \<Rightarrow> ls)
      in built @ built_documents enc (i + length built) rest)"

definition write_documents :: "'d store \<Rightarrow> (jsstring \<times> 'd) list \<Rightarrow> 'd store" where
  "write_documents st docs = foldl (\<lambda>s kd. snd (safeJsonSet s (fst kd) (snd kd) 0)) st docs"




section \<open>Example inputs\<close>

definition chem13 :: AwardRecord where
  "chem13 = \<lparr>year = js ''2013'', category = js ''chemistry'', laureates = None\<rparr>"

definition phys14 :: AwardRecord where
  "phys14 = \<lparr>year = js ''2014'', category = js ''physics'', laureates = None\<rparr>"

definition empty_prize_store :: "PrizeDocument store" where
  "empty_prize_store = \<lparr>outcomes = [], calls = [], written = [], console = []\<rparr>"

definition anonymous :: LaureateRef where
  "anonymous = \<lparr>ref_id = Some (js ''1''), firstname = None, surname = None,
                 motivation = Some (js ''for peace''), share = Some (js ''1'')\<rparr>"

definition peace13 :: AwardRecord where
  "peace13 = \<lparr>year = js ''2013'', category = js ''peace'', laureates = Some [anonymous]\<rparr>"

definition empty_laureate_store :: "LaureateDocument store" where
  "empty_laureate_store = \<lparr>outcomes = [], calls = [], written = [], console = []\<rparr>"

text \<open>
  A parser that agrees with \<open>JSON.parse\<close> on the three texts used below, a case mapping
  that agrees with \<open>toLowerCase\<close> on ASCII, and stores that answer every search with
  the same documents.
\<close>

definition two_motivations :: jsstring where
  \<open>two_motivations =
     js ''[{"motivation":"for development of X"},{"motivation":"for unrelated Y"}]''\<close>

definition tiny_parser :: "jsstring \<Rightarrow> json option" where
  "tiny_parser text =
     (if text = js ''[]'' then Some (JArr [])
      else if text = js ''[{}]'' then Some (JArr [JObj []])
      else if text = two_motivations
      then Some (JArr [JObj [(js ''motivation'', JStr (js ''for development of X''))],
                       JObj [(js ''motivation'', JStr (js ''for unrelated Y''))]])
      else None)"

definition ascii_lower :: "jsstring \<Rightarrow> jsstring" where
  "ascii_lower s = map (\<lambda>c. if 0x41 \<le> c \<and> c \<le> 0x5A then c + 0x20 else c) s"

definition prize_document :: "string \<Rightarrow> string \<Rightarrow> jsstring \<Rightarrow> document" where
  "prize_document y c laureates_text =
     \<lparr>doc_id = js ''prize:'' @ js y @ js '':'' @ js c @ js '':1'',
      doc_value = [(js ''$.year'', js y), (js ''$.category'', js c),
                   (js ''$.laureates'', laureates_text)]\<rparr>"

definition store_with :: "document list \<Rightarrow> redis" where
  "store_with docs =
     \<lparr>ft_search = (\<lambda>indexName query options. Inr \<lparr>total = length docs, documents = docs\<rparr>),
      json_get = (\<lambda>key. Inr JNull)\<rparr>"

definition ashkin :: LaureateRef where
  "ashkin = \<lparr>ref_id = Some (js ''960''), firstname = Some (js ''Arthur''),
             surname = Some (js ''Ashkin''), motivation = Some (js ''for the optical tweezers''),
             share = Some (js ''2'')\<rparr>"

definition mourou :: LaureateRef where
  "mourou = \<lparr>ref_id = Some (js ''961''), firstname = Some (js ''Gerard''),
             surname = Some (js ''Mourou''), motivation = None, share = Some (js ''4'')\<rparr>"

definition physics18 :: AwardRecord where
  "physics18 = \<lparr>year = js ''2018'', category = js ''physics'', laureates = Some [ashkin, mourou]\<rparr>"

definition failing_four_times :: "LaureateDocument store" where
  "failing_four_times = \<lparr>outcomes = [True, True, True, True], calls = [], written = [], console = []\<rparr>"

definition failing_once :: "PrizeDocument store" where
  "failing_once = \<lparr>outcomes = [True], calls = [], written = [], console = []\<rparr>"



definition physics_2018 :: document where
  "physics_2018 = prize_document ''2018'' ''physics'' two_motivations"


definition peace_2013 :: document where
  "peace_2013 = prize_document ''2013'' ''peace'' (js ''[{}]'')"


definition peace_2022_body :: json where
  "peace_2022_body =
     JObj [(js ''year'', JNum 2022), (js ''category'', JStr (js ''peace'')),
           (js ''laureates'',
            JArr [JObj [(js ''firstname'', JStr (js ''Ales'')),
                        (js ''surname'', JStr (js ''Bialiatski''))],
                  JObj [(js ''firstname'', JStr (js ''Memorial''))]])]"

definition peace_2022 :: document where
  "peace_2022 =
     \<lparr>doc_id = js ''prize:2022:peace:1'',
      doc_value = [(js ''__key'', js ''prize:2022:peace:1'')]\<rparr>"

definition peace_store :: redis where
  "peace_store =
     \<lparr>ft_search = (\<lambda>indexName query options. Inr \<lparr>total = 1, documents = [peace_2022]\<rparr>),
      json_get = (\<lambda>key. if key = Some (js ''prize:2022:peace:1'') then Inr peace_2022_body
                          else Inr JNull)\<rparr>"

definition unparsable_2014 :: document where
  "unparsable_2014 = prize_document ''2014'' ''peace'' (js ''not json'')"

section \<open>The embedding vector\<close>

lemma embed_loop_length: "length (embed_loop i s v) = length v"
proof (induction i s v rule: embed_loop.induct)
  case (1 i fullName vector)
  show ?case
    using 1 by (subst embed_loop.simps) simp
qed

lemma embed_loop_nth:
  "j < length v \<Longrightarrow> embed_loop i s v ! j =
     (if i \<le> j \<and> j < min (length s) 128 then real (unat (s ! j)) / 255 else v ! j)"
proof (induction i s v rule: embed_loop.induct)
  case (1 i fullName vector)
  show ?case
  proof (cases "i < min (length fullName) 128")
    case False
    have "embed_loop i fullName vector = vector"
      using False by (subst embed_loop.simps) auto
    with False show ?thesis by auto
  next
    case True
    have step: "embed_loop i fullName vector =
        embed_loop (i + 1) fullName (vector[i := real (unat (fullName ! i)) / 255])"
      using True by (subst embed_loop.simps) auto
    have ih: "embed_loop (i + 1) fullName (vector[i := real (unat (fullName ! i)) / 255]) ! j =
        (if i + 1 \<le> j \<and> j < min (length fullName) 128 then real (unat (fullName ! j)) / 255
         else (vector[i := real (unat (fullName ! i)) / 255]) ! j)"
      using "1.IH" [OF True] "1.prems" by simp
    show ?thesis
    proof (cases "j = i")
      case True
      with \<open>i < min (length fullName) 128\<close> "1.prems" show ?thesis
        unfolding step ih by simp
    next
      case False
      with "1.prems" show ?thesis
        unfolding step ih by (auto simp: nth_list_update)
    qed
  qed
qed

text \<open>
  What holds of the vector for every name: its length is 128, the entry at a position
  inside the name (and below 128) is the code unit there over 255, every other entry
  is 0, and no entry is negative.  An entry is at most 1 exactly when its code unit is
  at most 255.
\<close>

lemma someVectorEmbeddingFunction_length:
  "length (someVectorEmbeddingFunction name) = 128"
  by (simp add: someVectorEmbeddingFunction_def embed_loop_length)

lemma someVectorEmbeddingFunction_nth:
  "i < 128 \<Longrightarrow> someVectorEmbeddingFunction name ! i =
     (if i < length name then real (unat (name ! i)) / 255 else 0)"
  by (simp add: someVectorEmbeddingFunction_def embed_loop_nth)

lemma someVectorEmbeddingFunction_nonneg:
  "i < 128 \<Longrightarrow> 0 \<le> someVectorEmbeddingFunction name ! i"
  by (simp add: someVectorEmbeddingFunction_nth del: of_nat_unat)

lemma someVectorEmbeddingFunction_le_one_iff:
  "i < 128 \<Longrightarrow> i < length name \<Longrightarrow>
     (someVectorEmbeddingFunction name ! i \<le> 1) = (name ! i \<le> 0xFF)"
  by (simp add: someVectorEmbeddingFunction_nth word_le_nat_alt del: of_nat_unat)

text \<open>
  Claim C2.  The embedding of a name is deterministic, has length 128, holds the code
  unit over 255 inside the name and zero beyond it, and every entry lies in the
  interval from 0 to 1.  The last part fails for a name with a code unit above 255:
  the one-letter name U+0141 (the Polish L with stroke) has the entry 321/255 at
  position 0, which is greater than 1, while the length is still 128.
\<close>

theorem someVectorEmbeddingFunction_entry_above_one:
  "someVectorEmbeddingFunction [0x141] ! 0 = 321 / 255
   \<and> 1 < someVectorEmbeddingFunction [0x141] ! 0
   \<and> length (someVectorEmbeddingFunction [0x141]) = 128"
  by (simp add: someVectorEmbeddingFunction_nth someVectorEmbeddingFunction_length)

section \<open>Bounded retry of document writes\<close>

lemma json_set_ok:
  "leading_failures st = 0 \<Longrightarrow>
   json_set st key data =
     (None, st\<lparr>outcomes := tl (outcomes st), calls := calls st @ [key],
              written := written st @ [(key, data)]\<rparr>)"
  by (cases "outcomes st") (auto simp: json_set_def leading_failures_def Let_def split: if_splits)

lemma json_set_fail:
  "leading_failures st > 0 \<Longrightarrow>
   json_set st key data =
     (Some StoreError, st\<lparr>outcomes := tl (outcomes st), calls := calls st @ [key]\<rparr>)"
  by (cases "outcomes st") (auto simp: json_set_def leading_failures_def Let_def split: if_splits)

lemma leading_failures_tl:
  "leading_failures st > 0 \<Longrightarrow>
   leading_failures (st\<lparr>outcomes := tl (outcomes st), calls := c, console := d\<rparr>) = leading_failures st - 1"
  by (cases "outcomes st") (auto simp: leading_failures_def split: if_splits)

lemma safeJsonSet_run:
  "retries \<le> 3 \<Longrightarrow>
   safeJsonSet st key data retries =
     (let k = leading_failures st; n = min (k + 1) (4 - retries) in
      (None,
       st\<lparr>outcomes := drop n (outcomes st),
          calls := calls st @ replicate n key,
          written := (if k < 4 - retries then written st @ [(key, data)] else written st),
          console := console st @ map (RetryingJsonSet key) [retries + 1 ..< retries + n]
                      @ (if k < 4 - retries then [] else [FailedToSetKey key])\<rparr>))"
proof (induction st key data retries rule: safeJsonSet.induct)
  case (1 client key data retries)
  show ?case
  proof (cases "leading_failures client = 0")
    case True
    then show ?thesis
      using "1.prems"
      by (subst safeJsonSet.simps) (simp add: json_set_ok Let_def drop_Suc)
  next
    case False
    then have pos: "leading_failures client > 0" by simp
    show ?thesis
    proof (cases "retries < 3")
      case True
      note IH = "1.IH" [OF json_set_fail [OF pos, of key data, symmetric] refl True]
      show ?thesis
      proof -
        let ?st1 = "client\<lparr>outcomes := tl (outcomes client), calls := calls client @ [key]\<rparr>"
        have step: "safeJsonSet client key data retries =
            safeJsonSet (console_log (RetryingJsonSet key (retries + 1)) ?st1) key data (retries + 1)"
          using True by (subst safeJsonSet.simps) (simp add: json_set_fail [OF pos])
        have lf: "leading_failures (console_log (RetryingJsonSet key (retries + 1)) ?st1)
            = leading_failures client - 1"
          using pos by (cases "outcomes client") (auto simp: leading_failures_def console_log_def split: if_splits)
        have ne: "outcomes client \<noteq> []"
          using pos by (auto simp: leading_failures_def)
        define k where "k = leading_failures client"
        define n' where "n' = min (k - 1 + 1) (4 - (retries + 1))"
        have n: "min (k + 1) (4 - retries) = Suc n'"
          using True pos by (auto simp: min_def n'_def k_def)
        have "n' > 0" using True by (simp add: n'_def)
        then have upt: "[retries + 1 ..< retries + Suc n'] = (retries + 1) # [retries + 1 + 1 ..< retries + 1 + n']"
          by (simp add: upt_conv_Cons)
        have lt: "(k - 1 < 4 - (retries + 1)) = (k < 4 - retries)"
          using True pos by (auto simp: k_def)
        have IH': "safeJsonSet (console_log (RetryingJsonSet key (retries + 1)) ?st1) key data (retries + 1) =
          (None, (console_log (RetryingJsonSet key (retries + 1)) ?st1)
            \<lparr>outcomes := drop n' (outcomes (console_log (RetryingJsonSet key (retries + 1)) ?st1)),
             calls := calls (console_log (RetryingJsonSet key (retries + 1)) ?st1) @ replicate n' key,
             written := (if k < 4 - retries then written (console_log (RetryingJsonSet key (retries + 1)) ?st1) @ [(key, data)]
                         else written (console_log (RetryingJsonSet key (retries + 1)) ?st1)),
             console := console (console_log (RetryingJsonSet key (retries + 1)) ?st1)
                @ map (RetryingJsonSet key) [retries + 1 + 1 ..< retries + 1 + n']
                @ (if k < 4 - retries then [] else [FailedToSetKey key])\<rparr>)"
          using True by (subst IH) (simp_all only: Let_def lf lt n'_def k_def, simp)
        show ?thesis
          unfolding step IH' Let_def k_def [symmetric] n upt
          by (simp add: console_log_def drop_Suc)
      qed
    next
      case False
      with "1.prems" have r3: "retries = 3" by simp
      show ?thesis
        using pos r3
        by (subst safeJsonSet.simps) (simp add: json_set_fail [OF pos] Let_def console_log_def drop_Suc)
    qed
  qed
qed

lemma uploading_keys_append: "uploading_keys (xs @ ys) = uploading_keys xs @ uploading_keys ys"
  by (induction xs rule: uploading_keys.induct) simp_all

lemma uploading_keys_retries: "uploading_keys (map (RetryingJsonSet key) ns) = []"
  by (induction ns) simp_all

lemma safeJsonSet_returns: "fst (safeJsonSet st key data 0) = None"
  by (simp add: safeJsonSet_run Let_def)

lemma safeJsonSet_uploading:
  "uploading_keys (console (snd (safeJsonSet st key data 0))) = uploading_keys (console st)"
  by (simp add: safeJsonSet_run Let_def uploading_keys_append uploading_keys_retries)

section \<open>Keys of Layout A\<close>


lemma unat_digit: "d < 10 \<Longrightarrow> unat (0x30 + of_nat d :: 16 word) = 48 + d"
proof -
  assume d: "d < 10"
  have "unat (of_nat (48 + d) :: 16 word) = (48 + d) mod 2 ^ 16"
    by (simp only: unat_of_nat) simp
  also have "\<dots> = 48 + d" using d by simp
  finally show ?thesis by simp
qed

lemma digit_is_digit: "d < 10 \<Longrightarrow> is_digit (0x30 + of_nat d)"
  using unat_digit [of d] by (simp add: is_digit_def word_le_nat_alt)

lemma string_of_nat_digits: "x \<in> set (string_of_nat n) \<Longrightarrow> is_digit x"
proof (induction n rule: string_of_nat.induct)
  case (1 n)
  show ?case
  proof (cases "n < 10")
    case True
    with "1.prems" digit_is_digit [of n] show ?thesis
      by (subst (asm) string_of_nat.simps) simp
  next
    case False
    with "1.prems" have "x \<in> set (string_of_nat (n div 10)) \<or> x = 0x30 + of_nat (n mod 10)"
      by (subst (asm) string_of_nat.simps) auto
    then show ?thesis
      using "1.IH" [OF False] digit_is_digit [of "n mod 10"] by auto
  qed
qed

lemma colon_not_in_string_of_nat: "0x3A \<notin> set (string_of_nat n)"
  using string_of_nat_digits [of "0x3A" n] by (auto simp: is_digit_def)

lemma decimal_value_snoc: "decimal_value (ds @ [d]) = 10 * decimal_value ds + (unat d - 48)"
  by (simp add: decimal_value_def)

lemma decimal_value_single: "decimal_value [d] = unat d - 48"
  by (simp add: decimal_value_def)

lemma decimal_value_string_of_nat: "decimal_value (string_of_nat n) = n"
proof (induction n rule: string_of_nat.induct)
  case (1 n)
  show ?case
  proof (cases "n < 10")
    case True
    then have "string_of_nat n = [0x30 + of_nat n]"
      by (subst string_of_nat.simps) simp
    then show ?thesis
      using unat_digit [OF True] by (simp add: decimal_value_single)
  next
    case False
    then have "string_of_nat n = string_of_nat (n div 10) @ [0x30 + of_nat (n mod 10)]"
      by (subst string_of_nat.simps) simp
    then have "decimal_value (string_of_nat n)
        = 10 * decimal_value (string_of_nat (n div 10)) + (unat (0x30 + of_nat (n mod 10) :: 16 word) - 48)"
      by (simp only: decimal_value_snoc)
    also have "\<dots> = 10 * (n div 10) + n mod 10"
      using "1.IH" [OF False] unat_digit [of "n mod 10"] by simp
    finally show ?thesis by simp
  qed
qed

lemma string_of_nat_inj: "string_of_nat m = string_of_nat n \<Longrightarrow> m = n"
  by (metis decimal_value_string_of_nat)

lemma js_colon: "js '':'' = [0x3A]"
  by (simp add: js_def)

lemma split_at_last:
  "x \<notin> set ys \<Longrightarrow> x \<notin> set ys' \<Longrightarrow> xs @ x # ys = xs' @ x # ys' \<Longrightarrow> xs = xs' \<and> ys = ys'"
  by (auto simp: append_eq_append_conv2 append_eq_Cons_conv Cons_eq_append_conv)

lemma split_at_first:
  "x \<notin> set xs \<Longrightarrow> x \<notin> set xs' \<Longrightarrow> xs @ x # ys = xs' @ x # ys' \<Longrightarrow> xs = xs' \<and> ys = ys'"
  by (auto simp: append_eq_append_conv2 append_eq_Cons_conv Cons_eq_append_conv)

lemma key_inj:
  assumes eq: "a @ js '':'' @ string_of_nat m = b @ js '':'' @ string_of_nat n"
  shows "a = b \<and> m = n"
proof -
  have "a @ 0x3A # string_of_nat m = b @ 0x3A # string_of_nat n"
    using eq by (simp only: js_colon append_Cons append_Nil)
  with colon_not_in_string_of_nat [of m] colon_not_in_string_of_nat [of n]
  have "a = b \<and> string_of_nat m = string_of_nat n"
    by (rule split_at_last)
  then show ?thesis
    using string_of_nat_inj by blast
qed

lemma length_assigned_keys: "length (assigned_keys kc ps) = length ps"
  by (induction ps arbitrary: kc) simp_all

lemma take_assigned_keys: "take m (assigned_keys kc ps) = assigned_keys kc (take m ps)"
proof (induction ps arbitrary: kc m)
  case Nil
  show ?case by simp
next
  case (Cons p ps)
  show ?case by (cases m) (simp_all add: Cons del: fun_upd_apply)
qed

lemma attempted_writes_le: "attempted_writes os n \<le> n"
  by (induction os n rule: attempted_writes.induct) simp_all

lemma attempted_writes_Nil: "attempted_writes [] n = n"
  by (cases n) simp_all

lemma counter_of_upd: "counter_of (kc(kb \<mapsto> n)) kb = n"
  by (simp add: counter_of_def)

lemma upload_loop_A_Cons:
  "upload_loop_A kc st (p # ps) =
     (case json_set st (keyBase_of p @ js '':'' @ string_of_nat (current_counter kc (keyBase_of p)))
             (dataToSave p) of
        (Some e, st') \<Rightarrow> (Some e, st')
      | (None, st') \<Rightarrow>
          upload_loop_A (kc(keyBase_of p \<mapsto> current_counter kc (keyBase_of p) + 1)) st' ps)"
proof -
  let ?kb = "keyBase_of p"
  let ?kc1 = "if counter_of kc ?kb = 0 then kc(?kb \<mapsto> 1) else kc"
  have c1: "counter_of ?kc1 ?kb = current_counter kc ?kb"
    by (simp add: current_counter_def counter_of_upd)
  have k2: "?kc1(?kb \<mapsto> v) = kc(?kb \<mapsto> v)" for v
    by simp
  show ?thesis
    by (simp only: upload_loop_A.simps Let_def c1 k2)
qed

lemma upload_loop_A_calls:
  "calls (snd (upload_loop_A kc st ps))
     = calls st @ take (attempted_writes (outcomes st) (length ps)) (assigned_keys kc ps)"
proof (induction ps arbitrary: kc st)
  case Nil
  show ?case by simp
next
  case (Cons p ps)
  let ?kb = "keyBase_of p"
  let ?key = "?kb @ js '':'' @ string_of_nat (current_counter kc ?kb)"
  let ?kc2 = "kc(?kb \<mapsto> current_counter kc ?kb + 1)"
  have step: "upload_loop_A kc st (p # ps) =
      (case json_set st ?key (dataToSave p) of
         (Some e, st') \<Rightarrow> (Some e, st')
       | (None, st') \<Rightarrow> upload_loop_A ?kc2 st' ps)"
    by (rule upload_loop_A_Cons)
  note IH = Cons.IH
  show ?case
  proof (cases "outcomes st")
    case Nil
    then have "json_set st ?key (dataToSave p)
        = (None, st\<lparr>outcomes := [], calls := calls st @ [?key],
                       written := written st @ [(?key, dataToSave p)]\<rparr>)"
      by (simp add: json_set_def Let_def)
    then show ?thesis
      unfolding step using Nil by (simp add: IH attempted_writes_Nil del: fun_upd_apply)
  next
    case (Cons b os)
    show ?thesis
    proof (cases b)
      case True
      then have "json_set st ?key (dataToSave p)
          = (Some StoreError, st\<lparr>outcomes := os, calls := calls st @ [?key]\<rparr>)"
        using Cons by (simp add: json_set_def Let_def)
      then show ?thesis
        unfolding step using Cons True by (simp del: fun_upd_apply)
    next
      case False
      then have "json_set st ?key (dataToSave p)
          = (None, st\<lparr>outcomes := os, calls := calls st @ [?key],
                         written := written st @ [(?key, dataToSave p)]\<rparr>)"
        using Cons by (simp add: json_set_def Let_def)
      then show ?thesis
        unfolding step using Cons False by (simp add: IH del: fun_upd_apply)
    qed
  qed
qed

lemma keyBase_inj:
  assumes "list_all is_digit (year p)" "list_all is_digit y"
    and "keyBase_of p = js ''prize:'' @ y @ js '':'' @ c"
  shows "year p = y \<and> category p = c"
proof -
  have nd: "\<not> is_digit 0x3A" by (simp add: is_digit_def)
  have "0x3A \<notin> set (year p)" "0x3A \<notin> set y"
    using assms(1,2) nd by (auto simp: list_all_iff)
  moreover have "year p @ 0x3A # category p = y @ 0x3A # c"
    using assms(3) by (simp add: keyBase_of_def js_colon)
  ultimately show ?thesis
    by (rule split_at_first)
qed

lemma current_counter_upd_same:
  "current_counter (kc(kb \<mapsto> Suc n)) kb = Suc n"
  by (simp add: current_counter_def counter_of_def)

lemma current_counter_upd_other:
  "kb' \<noteq> kb \<Longrightarrow> current_counter (kc(kb' \<mapsto> n)) kb = current_counter kc kb"
  by (simp add: current_counter_def counter_of_def)

lemma assigned_keys_group:
  assumes "list_all valid_AwardRecord ps" "list_all is_digit y"
  shows "map snd (filter (\<lambda>(p, k). year p = y \<and> category p = c) (zip ps (assigned_keys kc ps)))
     = map (\<lambda>i. js ''prize:'' @ y @ js '':'' @ c @ js '':'' @ string_of_nat i)
         [current_counter kc (js ''prize:'' @ y @ js '':'' @ c)
          ..< current_counter kc (js ''prize:'' @ y @ js '':'' @ c)
              + length (filter (\<lambda>p. year p = y \<and> category p = c) ps)]"
  using assms(1)
proof (induction ps arbitrary: kc)
  case Nil
  show ?case by simp
next
  case (Cons p ps)
  let ?KB = "js ''prize:'' @ y @ js '':'' @ c"
  from Cons.prems have "valid_AwardRecord p" and vps: "list_all valid_AwardRecord ps"
    by simp_all
  then have vp: "list_all is_digit (year p)"
    by (simp add: valid_AwardRecord_def)
  note IH = Cons.IH [OF vps]
  let ?P = "\<lambda>(p, k). year p = y \<and> category p = c"
  let ?Q = "\<lambda>p. year p = y \<and> category p = c"
  let ?f = "\<lambda>i. js ''prize:'' @ y @ js '':'' @ c @ js '':'' @ string_of_nat i"
  let ?kc2 = "kc(keyBase_of p \<mapsto> current_counter kc (keyBase_of p) + 1)"
  let ?cc = "current_counter kc ?KB"
  show ?case
  proof (cases "year p = y \<and> category p = c")
    case True
    then have kb: "keyBase_of p = ?KB" by (simp add: keyBase_of_def)
    have cc2: "current_counter ?kc2 ?KB = Suc ?cc"
      unfolding kb by (simp only: current_counter_upd_same Suc_eq_plus1 [symmetric])
    have "map snd (filter ?P (zip (p # ps) (assigned_keys kc (p # ps))))
        = ?f ?cc # map snd (filter ?P (zip ps (assigned_keys ?kc2 ps)))"
      using True by (simp add: kb del: fun_upd_apply)
    also have "\<dots> = ?f ?cc # map ?f [Suc ?cc ..< Suc ?cc + length (filter ?Q ps)]"
      by (simp only: IH cc2)
    also have "\<dots> = map ?f [?cc ..< ?cc + length (filter ?Q (p # ps))]"
      using True by (simp add: upt_conv_Cons del: upt_Suc)
    finally show ?thesis .
  next
    case False
    then have kb: "keyBase_of p \<noteq> ?KB"
      using keyBase_inj [OF vp assms(2)] by blast
    have cc2: "current_counter ?kc2 ?KB = ?cc"
      using kb by (rule current_counter_upd_other)
    have "map snd (filter ?P (zip (p # ps) (assigned_keys kc (p # ps))))
        = map snd (filter ?P (zip ps (assigned_keys ?kc2 ps)))"
      using False by (simp del: fun_upd_apply)
    also have "\<dots> = map ?f [?cc ..< ?cc + length (filter ?Q ps)]"
      by (simp only: IH cc2)
    also have "\<dots> = map ?f [?cc ..< ?cc + length (filter ?Q (p # ps))]"
      using False by simp
    finally show ?thesis .
  qed
qed

lemma assigned_keys_mem:
  "k \<in> set (assigned_keys kc ps) \<Longrightarrow>
     \<exists>kb n. current_counter kc kb \<le> n \<and> k = kb @ js '':'' @ string_of_nat n"
proof (induction ps arbitrary: kc)
  case Nil
  then show ?case by simp
next
  case (Cons p ps)
  show ?case
  proof (cases "k = keyBase_of p @ js '':'' @ string_of_nat (current_counter kc (keyBase_of p))")
    case True
    then show ?thesis by blast
  next
    case False
    with Cons.prems have "k \<in> set (assigned_keys (kc(keyBase_of p \<mapsto> current_counter kc (keyBase_of p) + 1)) ps)"
      by simp
    from Cons.IH [OF this] obtain kb n where
      n: "current_counter (kc(keyBase_of p \<mapsto> current_counter kc (keyBase_of p) + 1)) kb \<le> n"
      and k: "k = kb @ js '':'' @ string_of_nat n"
      by blast
    have "current_counter kc kb \<le> n"
    proof (cases "kb = keyBase_of p")
      case True
      with n show ?thesis by (simp add: current_counter_upd_same)
    next
      case False
      then have "keyBase_of p \<noteq> kb" by simp
      with n show ?thesis by (simp add: current_counter_upd_other)
    qed
    with k show ?thesis by blast
  qed
qed

lemma distinct_assigned_keys: "distinct (assigned_keys kc ps)"
proof (induction ps arbitrary: kc)
  case Nil
  show ?case by simp
next
  case (Cons p ps)
  let ?kb = "keyBase_of p"
  let ?kc2 = "kc(?kb \<mapsto> current_counter kc ?kb + 1)"
  have "?kb @ js '':'' @ string_of_nat (current_counter kc ?kb) \<notin> set (assigned_keys ?kc2 ps)"
  proof
    assume "?kb @ js '':'' @ string_of_nat (current_counter kc ?kb) \<in> set (assigned_keys ?kc2 ps)"
    from assigned_keys_mem [OF this] obtain kb n where
      n: "current_counter ?kc2 kb \<le> n"
      and k: "?kb @ js '':'' @ string_of_nat (current_counter kc ?kb) = kb @ js '':'' @ string_of_nat n"
      by blast
    from key_inj [OF k] have "kb = ?kb" "n = current_counter kc ?kb" by auto
    with n show False by (simp add: current_counter_upd_same)
  qed
  then show ?case by (simp add: Cons.IH)
qed


lemma current_counter_empty: "current_counter Map.empty kb = 1"
  by (simp add: current_counter_def counter_of_def)

text \<open>
  Claim C7.  For every list of valid award records, the keys that the loop of Layout A
  hands to \<open>client.json.set\<close> are pairwise distinct, and for each year and category
  the keys of the records with that year and category, in the order of processing,
  are the key base followed by the counters 1, 2, 3, ... with no gap.  The records
  processed are all of them unless a write throws, which ends the loop.
\<close>

theorem uploadDataToRedis_A_keys:
  assumes "list_all valid_AwardRecord prizes"
  shows "(let ks = drop (length (calls client)) (calls (snd (uploadDataToRedis_A prizes client)));
              processed = take (length ks) prizes
          in length ks = attempted_writes (outcomes client) (length prizes)
             \<and> distinct ks
             \<and> (\<forall>y c. map snd (filter (\<lambda>(p, k). year p = y \<and> category p = c) (zip processed ks))
                   = map (\<lambda>i. js ''prize:'' @ y @ js '':'' @ c @ js '':'' @ string_of_nat i)
                       [1 ..< 1 + length (filter (\<lambda>p. year p = y \<and> category p = c) processed)]))"
proof -
  define m where "m = attempted_writes (outcomes client) (length prizes)"
  define ks where "ks = drop (length (calls client)) (calls (snd (uploadDataToRedis_A prizes client)))"
  define processed where "processed = take (length ks) prizes"
  have m_le: "m \<le> length prizes"
    unfolding m_def by (rule attempted_writes_le)
  have ks: "ks = assigned_keys Map.empty (take m prizes)"
    unfolding ks_def uploadDataToRedis_A_def upload_loop_A_calls m_def [symmetric]
    by (simp add: take_assigned_keys)
  have len: "length ks = m"
    using m_le by (simp add: ks length_assigned_keys)
  have proc: "processed = take m prizes"
    by (simp add: processed_def len)
  have valid: "list_all valid_AwardRecord processed"
    using assms by (auto simp: proc list_all_iff dest: in_set_takeD)
  have dist: "distinct ks"
    unfolding ks by (rule distinct_assigned_keys)
  have group: "map snd (filter (\<lambda>(p, k). year p = y \<and> category p = c) (zip processed ks))
      = map (\<lambda>i. js ''prize:'' @ y @ js '':'' @ c @ js '':'' @ string_of_nat i)
          [1 ..< 1 + length (filter (\<lambda>p. year p = y \<and> category p = c) processed)]" for y c
  proof (cases "list_all is_digit y")
    case True
    from assigned_keys_group [OF valid True, of c Map.empty]
    show ?thesis
      unfolding ks proc [symmetric] current_counter_empty .
  next
    case False
    have none: "\<not> (year p = y \<and> category p = c)" if "p \<in> set processed" for p
      using that valid False by (auto simp: list_all_iff valid_AwardRecord_def)
    then have "filter (\<lambda>p. year p = y \<and> category p = c) processed = []"
      by (simp add: filter_empty_conv)
    moreover have "filter (\<lambda>(p, k). year p = y \<and> category p = c) (zip processed ks) = []"
      using none by (auto simp: filter_empty_conv dest: set_zip_leftD)
    ultimately show ?thesis by simp
  qed
  show ?thesis
    unfolding Let_def ks_def [symmetric] processed_def [symmetric]
    using len dist group by (simp add: m_def)
qed

theorem uploadDataToRedis_A_keys_witness:
  "list_all valid_AwardRecord [chem13, phys14, chem13]
   \<and> calls (snd (uploadDataToRedis_A [chem13, phys14, chem13] empty_prize_store))
       = [js ''prize:2013:chemistry:1'', js ''prize:2014:physics:1'', js ''prize:2013:chemistry:2'']
   \<and> (let ks = drop (length (calls empty_prize_store))
                  (calls (snd (uploadDataToRedis_A [chem13, phys14, chem13] empty_prize_store)));
           processed = take (length ks) [chem13, phys14, chem13]
       in length ks = attempted_writes (outcomes empty_prize_store) (length [chem13, phys14, chem13])
          \<and> distinct ks
          \<and> (\<forall>y c. map snd (filter (\<lambda>(p, k). year p = y \<and> category p = c) (zip processed ks))
                = map (\<lambda>i. js ''prize:'' @ y @ js '':'' @ c @ js '':'' @ string_of_nat i)
                    [1 ..< 1 + length (filter (\<lambda>p. year p = y \<and> category p = c) processed)]))"
proof -
  have valid: "list_all valid_AwardRecord [chem13, phys14, chem13]"
    by (simp add: chem13_def phys14_def valid_AwardRecord_def is_digit_def js_def)
  have run: "calls (snd (uploadDataToRedis_A [chem13, phys14, chem13] empty_prize_store))
       = [js ''prize:2013:chemistry:1'', js ''prize:2014:physics:1'', js ''prize:2013:chemistry:2'']"
    by (simp add: uploadDataToRedis_A_def chem13_def phys14_def empty_prize_store_def Let_def
          json_set_def keyBase_of_def counter_of_def string_of_nat.simps js_def)
  from valid run uploadDataToRedis_A_keys [OF valid, of empty_prize_store]
  show ?thesis by blast
qed

section \<open>Laureates without a name\<close>

lemma same_documents_refl: "same_documents st st"
  by (simp add: same_documents_def)

lemma same_documents_console_log:
  "same_documents st st' \<Longrightarrow> same_documents (console_log e st) st'"
  "same_documents st st' \<Longrightarrow> same_documents st (console_log e st')"
  by (simp_all add: same_documents_def console_log_def)

lemma safeJsonSet_same_documents:
  assumes "same_documents st st'"
  shows "fst (safeJsonSet st key data 0) = fst (safeJsonSet st' key data 0)
     \<and> same_documents (snd (safeJsonSet st key data 0)) (snd (safeJsonSet st' key data 0))"
proof -
  have "leading_failures st = leading_failures st'"
    using assms by (simp add: same_documents_def leading_failures_def)
  then show ?thesis
    using assms by (simp add: safeJsonSet_run Let_def same_documents_def)
qed

lemma validateLaureate_nameless:
  "nameless l \<Longrightarrow> validateLaureate l = Inl ValidationError"
  by (simp add: validateLaureate_def nameless_def)

lemma validateLaureate_named:
  "\<not> nameless l \<Longrightarrow> \<exists>l'. validateLaureate l = Inr l'"
  by (auto simp: validateLaureate_def nameless_def)

lemma laureate_loop_without_nameless:
  "same_documents st st' \<Longrightarrow>
   fst (laureate_loop enc prize i st ls)
     = fst (laureate_loop enc prize' i st' (filter (\<lambda>l. \<not> nameless l) ls))
   \<and> fst (snd (laureate_loop enc prize i st ls))
     = fst (snd (laureate_loop enc prize' i st' (filter (\<lambda>l. \<not> nameless l) ls)))
   \<and> same_documents (snd (snd (laureate_loop enc prize i st ls)))
        (snd (snd (laureate_loop enc prize' i st' (filter (\<lambda>l. \<not> nameless l) ls))))"
  if same: "year prize' = year prize" "category prize' = category prize"
proof (induction ls arbitrary: i st st')
  case Nil
  then show ?case by simp
next
  case (Cons l ls)
  show ?case
  proof (cases "nameless l")
    case True
    have "laureate_loop enc prize i st (l # ls)
        = laureate_loop enc prize i (console_log ValidationErrorForLaureate st) ls"
      by (simp add: validateLaureate_nameless [OF True])
    moreover have "same_documents (console_log ValidationErrorForLaureate st) st'"
      using Cons.prems by (rule same_documents_console_log)
    ultimately show ?thesis
      using Cons.IH [of "console_log ValidationErrorForLaureate st" st' i] True by simp
  next
    case False
    then obtain l' where l': "validateLaureate l = Inr l'"
      using validateLaureate_named by blast
    have f: "filter (\<lambda>l. \<not> nameless l) (l # ls) = l # filter (\<lambda>l. \<not> nameless l) ls"
      using False by simp
    show ?thesis
    proof (cases "parseInt10 (year prize)")
      case None
      have a: "laureate_loop enc prize i st (l # ls)
          = laureate_loop enc prize i (console_log InvalidYearSkippingLaureate st) ls"
        by (simp add: l' None Let_def)
      have b: "laureate_loop enc prize' i st' (l # filter (\<lambda>l. \<not> nameless l) ls)
          = laureate_loop enc prize' i (console_log InvalidYearSkippingLaureate st')
              (filter (\<lambda>l. \<not> nameless l) ls)"
        by (simp add: l' None Let_def same)
      have sd: "same_documents (console_log InvalidYearSkippingLaureate st)
              (console_log InvalidYearSkippingLaureate st')"
        using Cons.prems by (simp add: same_documents_def console_log_def)
      show ?thesis
        unfolding f a b by (rule Cons.IH [OF sd])
    next
      case (Some y)
      let ?key = "js ''laureate:'' @ year prize @ js '':'' @ category prize @ js '':'' @ string_of_nat i"
      let ?doc = "\<lparr>ld_year = y, ld_category = category prize,
                    ld_motivation = or_empty (motivation l'),
                    ld_vector = enc (generateLaureateVector l')\<rparr>"
      let ?r = "safeJsonSet (console_log (UploadingLaureateData ?key) st) ?key ?doc 0"
      let ?r' = "safeJsonSet (console_log (UploadingLaureateData ?key) st') ?key ?doc 0"
      have r: "?r = (None, snd ?r)"
        using safeJsonSet_returns [of "console_log (UploadingLaureateData ?key) st" ?key ?doc]
        by (cases ?r) simp
      have r': "?r' = (None, snd ?r')"
        using safeJsonSet_returns [of "console_log (UploadingLaureateData ?key) st'" ?key ?doc]
        by (cases ?r') simp
      have a: "laureate_loop enc prize i st (l # ls)
          = laureate_loop enc prize (i + 1) (console_log (UploadedLaureate ?key) (snd ?r)) ls"
        by (simp add: l' Some Let_def) (subst r, simp)
      have b: "laureate_loop enc prize' i st' (l # filter (\<lambda>l. \<not> nameless l) ls)
          = laureate_loop enc prize' (i + 1) (console_log (UploadedLaureate ?key) (snd ?r'))
              (filter (\<lambda>l. \<not> nameless l) ls)"
        by (simp add: l' Some Let_def same) (subst r', simp)
      have "same_documents (console_log (UploadingLaureateData ?key) st)
              (console_log (UploadingLaureateData ?key) st')"
        using Cons.prems by (simp add: same_documents_def console_log_def)
      from safeJsonSet_same_documents [OF this, of ?key ?doc]
      have sd: "same_documents (console_log (UploadedLaureate ?key) (snd ?r))
              (console_log (UploadedLaureate ?key) (snd ?r'))"
        by (simp add: same_documents_def console_log_def)
      show ?thesis
        unfolding f a b by (rule Cons.IH [OF sd])
    qed
  qed
qed

lemma prize_loop_without_nameless:
  "same_documents st st' \<Longrightarrow>
   fst (prize_loop enc i st ps) = fst (prize_loop enc i st' (map without_nameless ps))
   \<and> fst (snd (prize_loop enc i st ps)) = fst (snd (prize_loop enc i st' (map without_nameless ps)))
   \<and> same_documents (snd (snd (prize_loop enc i st ps)))
        (snd (snd (prize_loop enc i st' (map without_nameless ps))))"
proof (induction ps arbitrary: i st st')
  case Nil
  then show ?case by simp
next
  case (Cons p ps)
  let ?p' = "without_nameless p"
  show ?case
  proof (cases "laureates p")
    case None
    then have "laureates ?p' = None" by (simp add: without_nameless_def)
    with None show ?thesis
      using Cons.IH [OF Cons.prems, of i] by simp
  next
    case (Some ls)
    let ?ls' = "filter (\<lambda>l. \<not> nameless l) ls"
    have p': "laureates ?p' = Some ?ls'" "year ?p' = year p" "category ?p' = category p"
      using Some by (simp_all add: without_nameless_def)
    let ?r = "laureate_loop enc p i st ls"
    let ?r' = "laureate_loop enc ?p' i st' ?ls'"
    have rel: "fst ?r = fst ?r' \<and> fst (snd ?r) = fst (snd ?r')
        \<and> same_documents (snd (snd ?r)) (snd (snd ?r'))"
      using laureate_loop_without_nameless [OF p'(2,3) Cons.prems] .
    have a: "prize_loop enc i st (p # ps) =
        (case ?r of (Some e, j, s) \<Rightarrow> (Some e, j, s) | (None, j, s) \<Rightarrow> prize_loop enc j s ps)"
      using Some by (cases ls) simp_all
    have b: "prize_loop enc i st' (map without_nameless (p # ps)) =
        (case ?r' of (Some e, j, s) \<Rightarrow> (Some e, j, s)
         | (None, j, s) \<Rightarrow> prize_loop enc j s (map without_nameless ps))"
      using p'(1) by (cases ?ls') simp_all
    obtain e j s where r: "?r = (e, j, s)" by (cases ?r) auto
    obtain e' j' s' where r': "?r' = (e', j', s')" by (cases ?r') auto
    from rel r r' have eq: "e' = e" "j' = j" and sd: "same_documents s s'" by simp_all
    show ?thesis
    proof (cases e)
      case None
      show ?thesis
        unfolding a b r r' eq None using Cons.IH [OF sd, of j] by simp
    next
      case (Some x)
      show ?thesis
        unfolding a b r r' eq Some using sd by simp
    qed
  qed
qed

lemma upload_loop_A_all_succeed:
  "outcomes st = [] \<Longrightarrow>
   upload_loop_A kc st ps =
     (None, st\<lparr>calls := calls st @ assigned_keys kc ps,
              written := written st @ zip (assigned_keys kc ps) (map dataToSave ps)\<rparr>)"
proof (induction ps arbitrary: kc st)
  case Nil
  show ?case by simp
next
  case (Cons p ps)
  let ?key = "keyBase_of p @ js '':'' @ string_of_nat (current_counter kc (keyBase_of p))"
  let ?st1 = "st\<lparr>outcomes := [], calls := calls st @ [?key],
                 written := written st @ [(?key, dataToSave p)]\<rparr>"
  have w: "json_set st ?key (dataToSave p) = (None, ?st1)"
    using Cons.prems by (simp add: json_set_def Let_def)
  have "outcomes ?st1 = []" by simp
  from Cons.IH [OF this] show ?case
    unfolding upload_loop_A_Cons w using Cons.prems by (simp del: fun_upd_apply)
qed

lemma parseInt10_2013: "parseInt10 (js ''2013'') = Some 2013"
  by (simp add: parseInt10_def js_def isWhiteSpace_def is_digit_def Let_def)

lemma string_of_nat_1: "string_of_nat (Suc 0) = [0x31]"
  by (simp add: string_of_nat.simps)

text \<open>
  Claim C3 says that a laureate entry with no firstname and no surname is rejected
  under both layouts.  Layout A has no such check: for a prize whose only laureate has
  no name, the document written under \<open>prize:2013:peace:1\<close> carries that laureate,
  while Layout B writes nothing for it.
\<close>

theorem uploadDataToRedis_A_keeps_nameless:
  "nameless anonymous
   \<and> written (snd (uploadDataToRedis_A [peace13] empty_prize_store))
       = [(js ''prize:2013:peace:1'',
           \<lparr>doc_year = Some 2013, doc_category = js ''peace'',
            doc_laureates = Some [anonymous], vectorField = []\<rparr>)]
   \<and> written (snd (snd (uploadDataToRedis_B (\<lambda>v. []) [peace13] empty_laureate_store))) = []"
proof -
  have n: "nameless anonymous"
    by (simp add: nameless_def anonymous_def falsy_def)
  have v: "createVectorField [anonymous] = []"
    by (simp add: createVectorField_def anonymous_def or_empty_def trim_def js_def isWhiteSpace_def)
  have d: "dataToSave peace13 =
      \<lparr>doc_year = Some 2013, doc_category = js ''peace'',
       doc_laureates = Some [anonymous], vectorField = []\<rparr>"
    by (simp add: dataToSave_def peace13_def parseInt10_2013 v)
  have k: "keyBase_of peace13 @ js '':'' @ string_of_nat (current_counter Map.empty (keyBase_of peace13))
      = js ''prize:2013:peace:1''"
    by (simp add: current_counter_empty string_of_nat_1 keyBase_of_def peace13_def js_def)
  have a: "written (snd (uploadDataToRedis_A [peace13] empty_prize_store))
       = [(js ''prize:2013:peace:1'',
           \<lparr>doc_year = Some 2013, doc_category = js ''peace'',
            doc_laureates = Some [anonymous], vectorField = []\<rparr>)]"
    unfolding uploadDataToRedis_A_def upload_loop_A_Cons k d
    by (simp add: json_set_def empty_prize_store_def Let_def)
  have b: "written (snd (snd (uploadDataToRedis_B (\<lambda>v. []) [peace13] empty_laureate_store))) = []"
    by (simp add: uploadDataToRedis_B_def peace13_def validateLaureate_nameless [OF n]
          console_log_def empty_laureate_store_def)
  from n a b show ?thesis by blast
qed

text \<open>
  Claim C3, as the code has it.  Layout B rejects a laureate entry with no firstname and
  no surname, entry by entry: the run on a batch ends with the same exception state,
  the same laureate index and the same store (script, calls and documents written) as
  the run on the batch with those entries removed, so no document is written for them
  and the other entries are processed as before.  Layout A does not validate: when no
  write fails it writes \<open>dataToSave\<close> of every record, whose laureates are the record's
  laureates unchanged.
\<close>

theorem nameless_rejected_by_layout_B_only:
  "(let r = uploadDataToRedis_B enc prizes client;
        r' = uploadDataToRedis_B enc (map without_nameless prizes) client
    in fst r = fst r' \<and> fst (snd r) = fst (snd r') \<and> same_documents (snd (snd r)) (snd (snd r')))
   \<and> (outcomes store_A = [] \<longrightarrow>
        written (snd (uploadDataToRedis_A prizes store_A))
          = written store_A @ zip (assigned_keys Map.empty prizes) (map dataToSave prizes))
   \<and> doc_laureates (dataToSave prize) = laureates prize"
proof -
  have b: "(let r = uploadDataToRedis_B enc prizes client;
        r' = uploadDataToRedis_B enc (map without_nameless prizes) client
    in fst r = fst r' \<and> fst (snd r) = fst (snd r') \<and> same_documents (snd (snd r)) (snd (snd r')))"
    unfolding Let_def uploadDataToRedis_B_def
    by (rule prize_loop_without_nameless [OF same_documents_refl])
  have a: "outcomes store_A = [] \<longrightarrow>
        written (snd (uploadDataToRedis_A prizes store_A))
          = written store_A @ zip (assigned_keys Map.empty prizes) (map dataToSave prizes)"
    by (simp add: uploadDataToRedis_A_def upload_loop_A_all_succeed)
  have c: "doc_laureates (dataToSave prize) = laureates prize"
    by (simp add: dataToSave_def)
  from a b c show ?thesis by blast
qed

theorem nameless_rejected_by_layout_B_only_witness:
  "outcomes empty_prize_store = []
   \<and> written (snd (uploadDataToRedis_A [peace13] empty_prize_store))
       = written empty_prize_store @ zip (assigned_keys Map.empty [peace13]) (map dataToSave [peace13])
   \<and> same_documents
         (snd (snd (uploadDataToRedis_B (\<lambda>v. []) [peace13] empty_laureate_store)))
         (snd (snd (uploadDataToRedis_B (\<lambda>v. []) (map without_nameless [peace13]) empty_laureate_store)))"
proof -
  have h: "outcomes empty_prize_store = []"
    by (simp add: empty_prize_store_def)
  from nameless_rejected_by_layout_B_only
         [of "\<lambda>v. []" "[peace13]" empty_laureate_store empty_prize_store peace13] h
  show ?thesis by (simp add: Let_def)
qed


section \<open>The query service\<close>

lemma forEach_skip:
  assumes "\<And>x a. \<not> P x \<Longrightarrow> f x a = Inr a"
  shows "forEach f xs a = forEach f (filter P xs) a"
proof (induction xs arbitrary: a)
  case Nil
  show ?case by simp
next
  case (Cons x xs)
  show ?case
  proof (cases "P x")
    case True
    then show ?thesis by (cases "f x a") (simp_all add: Cons)
  next
    case False
    then show ?thesis by (simp add: assms Cons)
  qed
qed

lemma forEach_throws:
  assumes "x \<in> set xs" and "\<And>a. \<exists>e. f x a = Inl e"
  shows "\<exists>e. forEach f xs a = Inl e"
  using assms(1)
proof (induction xs arbitrary: a)
  case Nil
  then show ?case by simp
next
  case (Cons y ys)
  show ?case
  proof (cases "f y a")
    case (Inl e)
    then show ?thesis by simp
  next
    case (Inr a')
    with Cons.prems assms(2) [of a] have "x \<in> set ys" by auto
    from Cons.IH [OF this, of a'] Inr show ?thesis by simp
  qed
qed


lemma match_laureate_unreadable:
  "\<not> has_motivation l \<Longrightarrow> match_laureate lower keyword doc l acc = Inl TypeError"
  by (cases l)
     (auto simp: has_motivation_def match_laureate_def toLowerCase_def
        split: option.splits json.splits)


lemma match_document_unparsable:
  "\<not> parses parser doc \<Longrightarrow> match_document parser lower keyword doc acc = Inr acc"
  by (simp add: parses_def match_document_def parse_laureates_def as_array_def split: sum.splits)

lemma laureates_of_unparsable:
  "\<not> parses parser doc \<Longrightarrow> laureates_of parser doc = []"
  by (simp add: parses_def laureates_of_def parse_laureates_def split: sum.splits)



lemma trim_empty_iff: "trim s = [] \<longleftrightarrow> list_all isWhiteSpace s"
proof
  assume "trim s = []"
  then have "dropWhile isWhiteSpace (rev (dropWhile isWhiteSpace s)) = []"
    by (simp add: trim_def)
  then have all: "\<forall>c \<in> set (dropWhile isWhiteSpace s). isWhiteSpace c"
    by (simp add: dropWhile_eq_Nil_conv)
  have "dropWhile isWhiteSpace s = []"
  proof (rule ccontr)
    assume ne: "dropWhile isWhiteSpace s \<noteq> []"
    then have "\<not> isWhiteSpace (hd (dropWhile isWhiteSpace s))" by (rule hd_dropWhile)
    moreover have "hd (dropWhile isWhiteSpace s) \<in> set (dropWhile isWhiteSpace s)"
      using ne by simp
    ultimately show False using all by blast
  qed
  then have "\<forall>c \<in> set s. isWhiteSpace c"
    by (simp only: dropWhile_eq_Nil_conv)
  then show "list_all isWhiteSpace s"
    by (simp only: list_all_iff)
next
  assume "list_all isWhiteSpace s"
  then have "\<forall>c \<in> set s. isWhiteSpace c"
    by (simp only: list_all_iff)
  then have "dropWhile isWhiteSpace s = []"
    by (simp only: dropWhile_eq_Nil_conv)
  then show "trim s = []" by (simp only: trim_def dropWhile.simps rev.simps)
qed

lemma str_includes_iff: "str_includes s needle \<longleftrightarrow> (\<exists>a b. s = a @ needle @ b)"
proof (induction s)
  case Nil
  show ?case by auto
next
  case (Cons c s)
  have p: "take (length needle) (c # s) = needle \<longleftrightarrow> (\<exists>b. c # s = needle @ b)"
  proof
    assume "take (length needle) (c # s) = needle"
    then have "c # s = needle @ drop (length needle) (c # s)"
      using append_take_drop_id [of "length needle" "c # s"] by simp
    then show "\<exists>b. c # s = needle @ b" ..
  next
    assume "\<exists>b. c # s = needle @ b"
    then obtain b where "c # s = needle @ b" ..
    then show "take (length needle) (c # s) = needle" by simp
  qed
  have q: "(\<exists>a b. c # s = a @ needle @ b)
      \<longleftrightarrow> (\<exists>b. c # s = needle @ b) \<or> (\<exists>a b. s = a @ needle @ b)"
  proof
    assume "\<exists>a b. c # s = a @ needle @ b"
    then obtain a b where ab: "c # s = a @ needle @ b" by blast
    show "(\<exists>b. c # s = needle @ b) \<or> (\<exists>a b. s = a @ needle @ b)"
    proof (cases a)
      case Nil
      with ab show ?thesis by auto
    next
      case (Cons x a')
      with ab have "s = a' @ needle @ b" by simp
      then show ?thesis by blast
    qed
  next
    assume "(\<exists>b. c # s = needle @ b) \<or> (\<exists>a b. s = a @ needle @ b)"
    then show "\<exists>a b. c # s = a @ needle @ b"
    proof
      assume "\<exists>b. c # s = needle @ b"
      then obtain b where "c # s = [] @ needle @ b" by auto
      then show ?thesis by blast
    next
      assume "\<exists>a b. s = a @ needle @ b"
      then obtain a b where "c # s = (c # a) @ needle @ b" by auto
      then show ?thesis by blast
    qed
  qed
  show ?case
    unfolding q by (simp only: str_includes.simps p Cons.IH)
qed

lemma blank_keyword: "(keyword = [] \<or> trim keyword = []) \<longleftrightarrow> list_all isWhiteSpace keyword"
  by (cases keyword) (simp_all add: trim_empty_iff)

subsection \<open>The year bounds\<close>

text \<open>
  Claim C4.  A call of \<open>CountLaureatesByCategoryAndYearRange\<close> with \<open>startYear\<close> below 2013
  or \<open>endYear\<close> above 2023 fails with the status invalid-argument and makes no call to
  the store; a call inside the bounds makes exactly one search.
\<close>

theorem CountLaureatesByCategoryAndYearRange_bounds:
  "(startYear request < 2013 \<or> endYear request > 2023 \<longrightarrow>
      CountLaureatesByCategoryAndYearRange redisClient parser request
        = ([], Failed INVALID_ARGUMENT (js ''Year range must be between 2013 and 2023.'')))
   \<and> (\<not> (startYear request < 2013 \<or> endYear request > 2023) \<longrightarrow>
      fst (CountLaureatesByCategoryAndYearRange redisClient parser request)
        = [FtSearch (js ''idx:prizes'')
             (js ''@category:{'' @ req_category request @ js ''} @year:[''
                @ string_of_int (startYear request) @ js '' ''
                @ string_of_int (endYear request) @ js '']'')
             return_fields])"
  by (simp add: CountLaureatesByCategoryAndYearRange_def Let_def split: sum.splits)

theorem CountLaureatesByCategoryAndYearRange_bounds_witness:
  "startYear \<lparr>req_category = js ''physics'', startYear = 2012, endYear = 2020\<rparr> < 2013
   \<and> CountLaureatesByCategoryAndYearRange (store_with []) tiny_parser
         \<lparr>req_category = js ''physics'', startYear = 2012, endYear = 2020\<rparr>
       = ([], Failed INVALID_ARGUMENT (js ''Year range must be between 2013 and 2023.''))
   \<and> fst (CountLaureatesByCategoryAndYearRange (store_with []) tiny_parser
         \<lparr>req_category = js ''physics'', startYear = 2013, endYear = 2023\<rparr>)
       = [FtSearch (js ''idx:prizes'')
             (js ''@category:{'' @ js ''physics'' @ js ''} @year:[''
                @ string_of_int 2013 @ js '' '' @ string_of_int 2023 @ js '']'')
             return_fields]"
  using CountLaureatesByCategoryAndYearRange_bounds
          [of "\<lparr>req_category = js ''physics'', startYear = 2012, endYear = 2020\<rparr>"
              "store_with []" tiny_parser]
        CountLaureatesByCategoryAndYearRange_bounds
          [of "\<lparr>req_category = js ''physics'', startYear = 2013, endYear = 2023\<rparr>"
              "store_with []" tiny_parser]
  by simp

text \<open>
  Claim C10.  For an inverted range inside the bounds, \<open>2013 \<le> endYear < startYear \<le> 2023\<close>,
  the validation passes: the handler makes the one search, with the years in the order
  given, and its reply is not invalid-argument; when the store answers that search with
  no document, the reply is a response with zero laureates.
\<close>

theorem CountLaureatesByCategoryAndYearRange_inverted_range:
  assumes "2013 \<le> endYear request" "endYear request < startYear request" "startYear request \<le> 2023"
  shows "fst (CountLaureatesByCategoryAndYearRange redisClient parser request)
        = [FtSearch (js ''idx:prizes'')
             (js ''@category:{'' @ req_category request @ js ''} @year:[''
                @ string_of_int (startYear request) @ js '' ''
                @ string_of_int (endYear request) @ js '']'')
             return_fields]
     \<and> (\<forall>message. snd (CountLaureatesByCategoryAndYearRange redisClient parser request)
            \<noteq> Failed INVALID_ARGUMENT message)
     \<and> (\<forall>results.
           ft_search redisClient (js ''idx:prizes'')
             (js ''@category:{'' @ req_category request @ js ''} @year:[''
                @ string_of_int (startYear request) @ js '' ''
                @ string_of_int (endYear request) @ js '']'')
             return_fields = Inr results
           \<and> documents results = [] \<longrightarrow>
           snd (CountLaureatesByCategoryAndYearRange redisClient parser request)
             = Ok \<lparr>totalLaureates = 0, laureates_found = []\<rparr>)"
  using assms
  by (auto simp: CountLaureatesByCategoryAndYearRange_def Let_def split: sum.splits)

theorem CountLaureatesByCategoryAndYearRange_inverted_range_witness:
  "(2013::int) \<le> 2015 \<and> (2015::int) < 2020 \<and> (2020::int) \<le> 2023
   \<and> CountLaureatesByCategoryAndYearRange (store_with []) tiny_parser
         \<lparr>req_category = js ''physics'', startYear = 2020, endYear = 2015\<rparr>
       = ([FtSearch (js ''idx:prizes'')
             (js ''@category:{'' @ js ''physics'' @ js ''} @year:[''
                @ string_of_int 2020 @ js '' '' @ string_of_int 2015 @ js '']'')
             return_fields],
          Ok \<lparr>totalLaureates = 0, laureates_found = []\<rparr>)"
proof -
  let ?request = "\<lparr>req_category = js ''physics'', startYear = 2020, endYear = 2015\<rparr>"
  have h: "2013 \<le> endYear ?request" "endYear ?request < startYear ?request"
      "startYear ?request \<le> 2023"
    by simp_all
  have s: "ft_search (store_with []) (js ''idx:prizes'')
             (js ''@category:{'' @ req_category ?request @ js ''} @year:[''
                @ string_of_int (startYear ?request) @ js '' ''
                @ string_of_int (endYear ?request) @ js '']'')
             return_fields = Inr \<lparr>total = 0, documents = []\<rparr>"
    by (simp add: store_with_def)
  from CountLaureatesByCategoryAndYearRange_inverted_range [OF h, of "store_with []" tiny_parser] s
  show ?thesis
    by (cases "CountLaureatesByCategoryAndYearRange (store_with []) tiny_parser ?request") auto
qed

section \<open>Retried writes and the batch\<close>

lemma write_documents_Nil: "write_documents st [] = st"
  by (simp add: write_documents_def)

lemma write_documents_Cons:
  "write_documents st ((k, d) # docs) = write_documents (snd (safeJsonSet st k d 0)) docs"
  by (simp add: write_documents_def)

lemma write_documents_append:
  "write_documents st (xs @ ys) = write_documents (write_documents st xs) ys"
  by (simp add: write_documents_def)

lemma write_documents_same:
  "same_documents a b \<Longrightarrow> same_documents (write_documents a docs) (write_documents b docs)"
proof (induction docs arbitrary: a b)
  case Nil
  then show ?case by (simp add: write_documents_Nil)
next
  case (Cons kd docs)
  obtain k d where kd: "kd = (k, d)" by (cases kd)
  from safeJsonSet_same_documents [OF Cons.prems, of k d]
  have "same_documents (snd (safeJsonSet a k d 0)) (snd (safeJsonSet b k d 0))" by simp
  from Cons.IH [OF this] show ?case by (simp add: kd write_documents_Cons)
qed

lemma same_documents_trans:
  "same_documents a b \<Longrightarrow> same_documents b c \<Longrightarrow> same_documents a c"
  by (simp add: same_documents_def)

lemma laureate_loop_built:
  "fst (laureate_loop enc prize i st ls) = None
   \<and> fst (snd (laureate_loop enc prize i st ls)) = i + length (built_laureates enc prize i ls)
   \<and> same_documents (snd (snd (laureate_loop enc prize i st ls)))
        (write_documents st (built_laureates enc prize i ls))
   \<and> uploading_keys (console (snd (snd (laureate_loop enc prize i st ls))))
        = uploading_keys (console st) @ map fst (built_laureates enc prize i ls)"
proof (induction ls arbitrary: i st)
  case Nil
  show ?case by (simp add: write_documents_Nil same_documents_refl)
next
  case (Cons l ls)
  show ?case
  proof (cases "validateLaureate l")
    case (Inl e)
    let ?st1 = "console_log ValidationErrorForLaureate st"
    have a: "laureate_loop enc prize i st (l # ls) = laureate_loop enc prize i ?st1 ls"
      by (simp add: Inl)
    have b: "built_laureates enc prize i (l # ls) = built_laureates enc prize i ls"
      by (simp add: Inl)
    have sd: "same_documents (write_documents ?st1 (built_laureates enc prize i ls))
                (write_documents st (built_laureates enc prize i ls))"
      by (rule write_documents_same) (simp add: same_documents_def console_log_def)
    have u: "uploading_keys (console ?st1) = uploading_keys (console st)"
      by (simp add: console_log_def uploading_keys_append)
    from Cons.IH [of i ?st1] sd u show ?thesis
      unfolding a b by (auto intro: same_documents_trans)
  next
    case (Inr l')
    show ?thesis
    proof (cases "parseInt10 (year prize)")
      case None
      let ?st1 = "console_log InvalidYearSkippingLaureate st"
      have a: "laureate_loop enc prize i st (l # ls) = laureate_loop enc prize i ?st1 ls"
        by (simp add: Inr None Let_def)
      have b: "built_laureates enc prize i (l # ls) = built_laureates enc prize i ls"
        by (simp add: Inr None)
      have sd: "same_documents (write_documents ?st1 (built_laureates enc prize i ls))
                  (write_documents st (built_laureates enc prize i ls))"
        by (rule write_documents_same) (simp add: same_documents_def console_log_def)
      have u: "uploading_keys (console ?st1) = uploading_keys (console st)"
        by (simp add: console_log_def uploading_keys_append)
      from Cons.IH [of i ?st1] sd u show ?thesis
        unfolding a b by (auto intro: same_documents_trans)
    next
      case (Some y)
      let ?key = "js ''laureate:'' @ year prize @ js '':'' @ category prize @ js '':'' @ string_of_nat i"
      let ?doc = "\<lparr>ld_year = y, ld_category = category prize,
                    ld_motivation = or_empty (motivation l'),
                    ld_vector = enc (generateLaureateVector l')\<rparr>"
      let ?st0 = "console_log (UploadingLaureateData ?key) st"
      let ?r = "safeJsonSet ?st0 ?key ?doc 0"
      let ?st1 = "console_log (UploadedLaureate ?key) (snd ?r)"
      let ?rest = "built_laureates enc prize (i + 1) ls"
      have r: "?r = (None, snd ?r)"
        using safeJsonSet_returns [of ?st0 ?key ?doc] by (cases ?r) simp
      have a: "laureate_loop enc prize i st (l # ls) = laureate_loop enc prize (i + 1) ?st1 ls"
        by (simp add: Inr Some Let_def) (subst r, simp)
      have b: "built_laureates enc prize i (l # ls) = (?key, ?doc) # ?rest"
        by (simp add: Inr Some)
      have "same_documents ?st0 st"
        by (simp add: same_documents_def console_log_def)
      from safeJsonSet_same_documents [OF this, of ?key ?doc]
      have "same_documents ?st1 (snd (safeJsonSet st ?key ?doc 0))"
        by (simp add: same_documents_def console_log_def)
      then have sd: "same_documents (write_documents ?st1 ?rest)
                  (write_documents st ((?key, ?doc) # ?rest))"
        unfolding write_documents_Cons by (rule write_documents_same)
      have u: "uploading_keys (console ?st1) = uploading_keys (console st) @ [?key]"
        by (simp add: safeJsonSet_uploading console_log_def uploading_keys_append)
      from Cons.IH [of "i + 1" ?st1] sd u show ?thesis
        unfolding a b by (auto intro: same_documents_trans)
    qed
  qed
qed

lemma prize_loop_built:
  "fst (prize_loop enc i st ps) = None
   \<and> fst (snd (prize_loop enc i st ps)) = i + length (built_documents enc i ps)
   \<and> same_documents (snd (snd (prize_loop enc i st ps)))
        (write_documents st (built_documents enc i ps))
   \<and> uploading_keys (console (snd (snd (prize_loop enc i st ps))))
        = uploading_keys (console st) @ map fst (built_documents enc i ps)"
proof (induction ps arbitrary: i st)
  case Nil
  show ?case by (simp add: write_documents_Nil same_documents_refl)
next
  case (Cons p ps)
  let ?ls = "case laureates p of None \<Rightarrow> [] | Some ls \<Rightarrow> ls"
  let ?B = "built_laureates enc p i ?ls"
  let ?r = "laureate_loop enc p i st ?ls"
  have step: "prize_loop enc i st (p # ps) = prize_loop enc (fst (snd ?r)) (snd (snd ?r)) ps"
  proof (cases "laureates p")
    case None
    then show ?thesis by simp
  next
    case (Some ls)
    show ?thesis
    proof (cases ls)
      case Nil
      with Some show ?thesis by simp
    next
      case (Cons x xs)
      have "fst (laureate_loop enc p i st ls) = None"
        using laureate_loop_built [of enc p i st ls] by simp
      then obtain j s where r: "laureate_loop enc p i st ls = (None, j, s)"
        by (cases "laureate_loop enc p i st ls") auto
      have "prize_loop enc i st (p # ps) = prize_loop enc j s ps"
        using Some Cons r by (simp del: laureate_loop.simps)
      then show ?thesis
        using Some r by simp
    qed
  qed
  from laureate_loop_built [of enc p i st ?ls]
  have l: "fst (snd ?r) = i + length ?B"
      "same_documents (snd (snd ?r)) (write_documents st ?B)"
      "uploading_keys (console (snd (snd ?r))) = uploading_keys (console st) @ map fst ?B"
    by simp_all
  have b: "built_documents enc i (p # ps) = ?B @ built_documents enc (i + length ?B) ps"
    by (simp add: Let_def)
  have sd: "same_documents (write_documents (snd (snd ?r)) (built_documents enc (i + length ?B) ps))
      (write_documents st (?B @ built_documents enc (i + length ?B) ps))"
    unfolding write_documents_append by (rule write_documents_same) (rule l(2))
  from Cons.IH [of "i + length ?B" "snd (snd ?r)"] sd l(3) show ?case
    unfolding step b l(1) by (auto intro: same_documents_trans)
qed

lemma safeJsonSet_no_failure:
  "outcomes st = [] \<Longrightarrow>
   snd (safeJsonSet st key data 0)
     = st\<lparr>calls := calls st @ [key], written := written st @ [(key, data)]\<rparr>"
  by (simp add: safeJsonSet_run leading_failures_def Let_def)

lemma write_documents_no_failure:
  "outcomes st = [] \<Longrightarrow>
   write_documents st docs = st\<lparr>calls := calls st @ map fst docs, written := written st @ docs\<rparr>"
proof (induction docs arbitrary: st)
  case Nil
  show ?case by (simp add: write_documents_Nil)
next
  case (Cons kd docs)
  obtain k d where kd: "kd = (k, d)" by (cases kd)
  let ?st1 = "st\<lparr>calls := calls st @ [k], written := written st @ [(k, d)]\<rparr>"
  have "outcomes ?st1 = []" using Cons.prems by simp
  from Cons.IH [OF this] show ?case
    by (simp add: kd write_documents_Cons safeJsonSet_no_failure [OF Cons.prems])
qed

lemma safeJsonSet_four_failures:
  "outcomes st = [True, True, True, True] \<Longrightarrow>
   snd (safeJsonSet st key data 0)
     = st\<lparr>outcomes := [], calls := calls st @ [key, key, key, key],
          console := console st @ [RetryingJsonSet key 1, RetryingJsonSet key 2,
                                   RetryingJsonSet key 3, FailedToSetKey key]\<rparr>"
  by (simp add: safeJsonSet_run leading_failures_def Let_def upt_rec numeral_eq_Suc)

lemma write_documents_first_fails:
  assumes "outcomes st = [True, True, True, True]"
  shows "written (write_documents st ((k, d) # rest)) = written st @ rest"
    and "calls (write_documents st ((k, d) # rest)) = calls st @ [k, k, k, k] @ map fst rest"
proof -
  let ?st1 = "st\<lparr>outcomes := [], calls := calls st @ [k, k, k, k],
          console := console st @ [RetryingJsonSet k 1, RetryingJsonSet k 2,
                                   RetryingJsonSet k 3, FailedToSetKey k]\<rparr>"
  have w: "write_documents st ((k, d) # rest) = write_documents ?st1 rest"
    by (simp only: write_documents_Cons safeJsonSet_four_failures [OF assms])
  have "outcomes ?st1 = []" by simp
  from write_documents_no_failure [OF this, of rest]
  show "written (write_documents st ((k, d) # rest)) = written st @ rest"
    and "calls (write_documents st ((k, d) # rest)) = calls st @ [k, k, k, k] @ map fst rest"
    unfolding w by simp_all
qed

lemma upload_loop_A_first_write_fails:
  assumes "outcomes st = True # os"
  shows "upload_loop_A kc st (prize # others)
     = (Some StoreError,
        st\<lparr>outcomes := os,
           calls := calls st @ [keyBase_of prize @ js '':'' @ string_of_nat (current_counter kc (keyBase_of prize))]\<rparr>)"
  unfolding upload_loop_A_Cons using assms by (simp add: json_set_def Let_def)

text \<open>
  Claim C8 says that every document write of ingestion is retried.  The Layout-A script
  calls \<open>client.json.set\<close> bare: when the first write of a batch of two fails once,
  there is one attempt, the exception leaves \<open>uploadDataToRedis\<close>, nothing is written
  and the second document is never attempted.
\<close>

theorem uploadDataToRedis_A_no_retry:
  "uploadDataToRedis_A [chem13, phys14] failing_once
     = (Some StoreError,
        \<lparr>outcomes = [], calls = [js ''prize:2013:chemistry:1''], written = [], console = []\<rparr>)"
proof -
  have k: "keyBase_of chem13 @ js '':'' @ string_of_nat (current_counter Map.empty (keyBase_of chem13))
      = js ''prize:2013:chemistry:1''"
    by (simp add: current_counter_empty string_of_nat_1 keyBase_of_def chem13_def js_def)
  have o: "outcomes failing_once = True # []"
    by (simp add: failing_once_def)
  show ?thesis
    unfolding uploadDataToRedis_A_def upload_loop_A_first_write_fails [OF o] k
    by (simp add: failing_once_def)
qed

text \<open>
  Claim C8, as the code has it.  In the Layout-B script every document write goes
  through \<open>safeJsonSet\<close>: with \<open>k\<close> the number of attempts that fail in a row, it calls
  \<open>client.json.set\<close> exactly \<open>min (k + 1) 4\<close> times on the same key (up to 3 retries),
  prints one warning before each retry, lets no exception out, stores the document
  once when an attempt succeeds, and prints the failure and stores nothing when the
  fourth attempt fails too.  The batch continues after such a document: no exception
  leaves the loops, the laureate index ends at one plus the number of documents built,
  every document built is announced, and the store ends as if \<open>safeJsonSet\<close> had been
  run on each document built, in order; so when the first four attempts of a batch
  fail and all later ones succeed, the first document has four calls and is not
  written and every later document is written with one call.  The Layout-A script
  does not retry: when its first write fails, the exception leaves the loop after that
  one call and nothing is written.
\<close>

theorem ingestion_write_retry:
  "(let k = leading_failures st; n = min (k + 1) 4; r = safeJsonSet st key data 0 in
      fst r = None
      \<and> calls (snd r) = calls st @ replicate n key
      \<and> written (snd r) = (if k < 4 then written st @ [(key, data)] else written st)
      \<and> console (snd r) = console st @ map (RetryingJsonSet key) [1 ..< n]
            @ (if k < 4 then [] else [FailedToSetKey key]))
   \<and> (let docs = built_documents enc 1 prizes; r = uploadDataToRedis_B enc prizes client in
        fst r = None
        \<and> fst (snd r) = 1 + length docs
        \<and> same_documents (snd (snd r)) (write_documents client docs)
        \<and> uploading_keys (console (snd (snd r))) = uploading_keys (console client) @ map fst docs)
   \<and> (outcomes client = [True, True, True, True]
        \<and> built_documents enc 1 prizes = (k1, d1) # rest \<longrightarrow>
        written (snd (snd (uploadDataToRedis_B enc prizes client))) = written client @ rest
        \<and> calls (snd (snd (uploadDataToRedis_B enc prizes client)))
            = calls client @ [k1, k1, k1, k1] @ map fst rest)
   \<and> (outcomes store_A = True # os \<longrightarrow>
        fst (uploadDataToRedis_A (prize # others) store_A) = Some StoreError
        \<and> calls (snd (uploadDataToRedis_A (prize # others) store_A))
            = calls store_A @ [keyBase_of prize @ js '':'' @ string_of_nat 1]
        \<and> written (snd (uploadDataToRedis_A (prize # others) store_A)) = written store_A)"
proof -
  have single: "(let k = leading_failures st; n = min (k + 1) 4; r = safeJsonSet st key data 0 in
      fst r = None
      \<and> calls (snd r) = calls st @ replicate n key
      \<and> written (snd r) = (if k < 4 then written st @ [(key, data)] else written st)
      \<and> console (snd r) = console st @ map (RetryingJsonSet key) [1 ..< n]
            @ (if k < 4 then [] else [FailedToSetKey key]))"
    by (simp add: safeJsonSet_run Let_def)
  have batch: "(let docs = built_documents enc 1 prizes; r = uploadDataToRedis_B enc prizes client in
        fst r = None
        \<and> fst (snd r) = 1 + length docs
        \<and> same_documents (snd (snd r)) (write_documents client docs)
        \<and> uploading_keys (console (snd (snd r))) = uploading_keys (console client) @ map fst docs)"
    unfolding Let_def uploadDataToRedis_B_def by (rule prize_loop_built)
  have skip: "written (snd (snd (uploadDataToRedis_B enc prizes client))) = written client @ rest
        \<and> calls (snd (snd (uploadDataToRedis_B enc prizes client)))
            = calls client @ [k1, k1, k1, k1] @ map fst rest"
    if o: "outcomes client = [True, True, True, True]"
      and b: "built_documents enc 1 prizes = (k1, d1) # rest"
  proof -
    from batch [unfolded Let_def b]
    have "same_documents (snd (snd (uploadDataToRedis_B enc prizes client)))
        (write_documents client ((k1, d1) # rest))"
      by blast
    then show ?thesis
      using write_documents_first_fails [OF o, of k1 d1 rest]
      by (simp add: same_documents_def)
  qed
  have layout_A: "fst (uploadDataToRedis_A (prize # others) store_A) = Some StoreError
        \<and> calls (snd (uploadDataToRedis_A (prize # others) store_A))
            = calls store_A @ [keyBase_of prize @ js '':'' @ string_of_nat 1]
        \<and> written (snd (uploadDataToRedis_A (prize # others) store_A)) = written store_A"
    if "outcomes store_A = True # os"
    unfolding uploadDataToRedis_A_def upload_loop_A_first_write_fails [OF that]
    by (simp add: current_counter_empty)
  from single batch skip layout_A show ?thesis by blast
qed

lemma built_physics18:
  "built_documents (\<lambda>v. []) 1 [physics18]
     = [(js ''laureate:2018:physics:1'',
         \<lparr>ld_year = 2018, ld_category = js ''physics'',
          ld_motivation = js ''for the optical tweezers'', ld_vector = []\<rparr>),
        (js ''laureate:2018:physics:2'',
         \<lparr>ld_year = 2018, ld_category = js ''physics'', ld_motivation = [], ld_vector = []\<rparr>)]"
  by (simp add: physics18_def ashkin_def mourou_def validateLaureate_def falsy_def or_empty_def
        parseInt10_def isWhiteSpace_def is_digit_def Let_def string_of_nat.simps js_def)

theorem ingestion_write_retry_witness:
  "outcomes failing_four_times = [True, True, True, True]
   \<and> outcomes failing_once = True # []
   \<and> written (snd (snd (uploadDataToRedis_B (\<lambda>v. []) [physics18] failing_four_times)))
       = [(js ''laureate:2018:physics:2'',
           \<lparr>ld_year = 2018, ld_category = js ''physics'', ld_motivation = [], ld_vector = []\<rparr>)]
   \<and> calls (snd (snd (uploadDataToRedis_B (\<lambda>v. []) [physics18] failing_four_times)))
       = [js ''laureate:2018:physics:1'', js ''laureate:2018:physics:1'',
          js ''laureate:2018:physics:1'', js ''laureate:2018:physics:1'',
          js ''laureate:2018:physics:2'']
   \<and> fst (uploadDataToRedis_A [chem13, phys14] failing_once) = Some StoreError
   \<and> written (snd (uploadDataToRedis_A [chem13, phys14] failing_once)) = []"
proof -
  have o: "outcomes failing_four_times = [True, True, True, True]"
    by (simp add: failing_four_times_def)
  have o1: "outcomes failing_once = True # []"
    by (simp add: failing_once_def)
  have e: "written failing_four_times = []" "calls failing_four_times = []"
      "written failing_once = []"
    by (simp_all add: failing_four_times_def failing_once_def)
  let ?k1 = "js ''laureate:2018:physics:1''"
  let ?d1 = "\<lparr>ld_year = 2018, ld_category = js ''physics'',
          ld_motivation = js ''for the optical tweezers'', ld_vector = []\<rparr>"
  let ?k2 = "js ''laureate:2018:physics:2''"
  let ?d2 = "\<lparr>ld_year = 2018, ld_category = js ''physics'', ld_motivation = [], ld_vector = []\<rparr>"
  note T = ingestion_write_retry
         [of failing_four_times ?k1 ?d1 "\<lambda>v. []" "[physics18]" failing_four_times
             ?k1 ?d1 "[(?k2, ?d2)]" failing_once "[]" chem13 "[phys14]"]
  from T have b: "outcomes failing_four_times = [True, True, True, True]
        \<and> built_documents (\<lambda>v. []) 1 [physics18] = (?k1, ?d1) # [(?k2, ?d2)] \<longrightarrow>
        written (snd (snd (uploadDataToRedis_B (\<lambda>v. []) [physics18] failing_four_times)))
          = written failing_four_times @ [(?k2, ?d2)]
        \<and> calls (snd (snd (uploadDataToRedis_B (\<lambda>v. []) [physics18] failing_four_times)))
            = calls failing_four_times @ [?k1, ?k1, ?k1, ?k1] @ map fst [(?k2, ?d2)]"
    by blast
  from T have a: "outcomes failing_once = True # [] \<longrightarrow>
        fst (uploadDataToRedis_A (chem13 # [phys14]) failing_once) = Some StoreError
        \<and> calls (snd (uploadDataToRedis_A (chem13 # [phys14]) failing_once))
            = calls failing_once @ [keyBase_of chem13 @ js '':'' @ string_of_nat 1]
        \<and> written (snd (uploadDataToRedis_A (chem13 # [phys14]) failing_once)) = written failing_once"
    by blast
  from b o built_physics18 have b': "written (snd (snd (uploadDataToRedis_B (\<lambda>v. []) [physics18] failing_four_times)))
          = written failing_four_times @ [(?k2, ?d2)]"
      "calls (snd (snd (uploadDataToRedis_B (\<lambda>v. []) [physics18] failing_four_times)))
            = calls failing_four_times @ [?k1, ?k1, ?k1, ?k1] @ map fst [(?k2, ?d2)]"
    by blast+
  from a o1 have a': "fst (uploadDataToRedis_A (chem13 # [phys14]) failing_once) = Some StoreError"
      "written (snd (uploadDataToRedis_A (chem13 # [phys14]) failing_once)) = written failing_once"
    by blast+
  from o o1 a' b' show ?thesis
    by (simp only: e append_Nil list.map fst_conv simp_thms append_Cons)
qed

section \<open>The encoded vector\<close>













subsection \<open>The keyword filter\<close>





subsection \<open>The category query\<close>







subsection \<open>Failures while a result is assembled\<close>

lemma ft_search_keep_documents:
  "ft_search (keep_documents keep R) i q opts =
     (case ft_search R i q opts of
        Inl e \<Rightarrow> Inl e
      | Inr results \<Rightarrow> Inr (results\<lparr>documents := filter keep (documents results)\<rparr>))"
  by (simp add: keep_documents_def)

lemma json_get_keep_documents: "json_get (keep_documents keep R) = json_get R"
  by (simp add: keep_documents_def)

lemma count_document_unparsable:
  "\<not> parses parser doc \<Longrightarrow> count_document parser doc acc = Inr acc"
  by (simp add: parses_def count_document_def parse_laureates_def as_array_def split: sum.splits)

lemma prize_of_document_unparsable:
  "\<not> parses parser doc \<Longrightarrow>
   prize_of_document parser doc
     = Inr \<lparr>p_year = field doc (js ''$.year''), p_category = field doc (js ''$.category''),
            p_laureates = []\<rparr>"
  by (simp add: parses_def prize_of_document_def parse_laureates_def as_array_def split: sum.splits)

lemma CountLaureatesByMotivationKeyword_keep:
  "CountLaureatesByMotivationKeyword (keep_documents (parses parser) R) parser lower keyword
     = CountLaureatesByMotivationKeyword R parser lower keyword"
proof (cases "ft_search R (js ''idx:prizes'') (js ''@motivation:('' @ keyword @ js '')'') return_fields")
  case (Inl e)
  then show ?thesis
    by (simp add: CountLaureatesByMotivationKeyword_def Let_def ft_search_keep_documents)
next
  case (Inr results)
  have "forEach (match_document parser lower keyword) (documents results) (0, [])
      = forEach (match_document parser lower keyword) (filter (parses parser) (documents results)) (0, [])"
    by (rule forEach_skip) (rule match_document_unparsable)
  then show ?thesis
    by (simp add: CountLaureatesByMotivationKeyword_def Let_def ft_search_keep_documents Inr)
qed

lemma CountLaureatesByCategoryAndYearRange_keep:
  "CountLaureatesByCategoryAndYearRange (keep_documents (parses parser) R) parser request
     = CountLaureatesByCategoryAndYearRange R parser request"
proof (cases "ft_search R (js ''idx:prizes'')
        (js ''@category:{'' @ req_category request @ js ''} @year:[''
           @ string_of_int (startYear request) @ js '' ''
           @ string_of_int (endYear request) @ js '']'') return_fields")
  case (Inl e)
  then show ?thesis
    by (simp add: CountLaureatesByCategoryAndYearRange_def Let_def ft_search_keep_documents)
next
  case (Inr results)
  have "forEach (count_document parser) (documents results) (0, [])
      = forEach (count_document parser) (filter (parses parser) (documents results)) (0, [])"
    by (rule forEach_skip) (rule count_document_unparsable)
  then show ?thesis
    by (simp add: CountLaureatesByCategoryAndYearRange_def Let_def ft_search_keep_documents Inr)
qed

lemma read_document_keep:
  "read_document (keep_documents keep R) parser doc = read_document R parser doc"
  by (simp add: read_document_def json_get_keep_documents)

lemma name_loop_keep:
  "name_loop (keep_documents keep R) parser lower fn sn docs trace info
     = name_loop R parser lower fn sn docs trace info"
proof (induction docs arbitrary: trace info)
  case Nil
  show ?case by simp
next
  case (Cons d ds)
  show ?case
    by (simp add: read_document_keep Cons split: prod.splits option.splits sum.splits)
qed

lemma name_loop_skip:
  "snd (name_loop R parser lower fn sn docs trace info)
     = snd (name_loop R parser lower fn sn (filter (readable R parser) docs) trace' info)"
proof (induction docs arbitrary: trace trace' info)
  case Nil
  show ?case by simp
next
  case (Cons d ds)
  obtain made data where rd: "read_document R parser d = (made, data)"
    by (cases "read_document R parser d")
  show ?case
  proof (cases data)
    case None
    then have nr: "\<not> readable R parser d"
      by (simp add: readable_def rd)
    show ?thesis
      using Cons [of "trace @ made" info trace'] by (simp add: nr rd None)
  next
    case (Some body)
    then have r: "readable R parser d"
      by (simp add: readable_def rd)
    show ?thesis
    proof (cases "scan_document lower fn sn body info")
      case (Inl e)
      then show ?thesis by (simp add: r rd Some)
    next
      case (Inr info')
      show ?thesis
        using Cons [of "trace @ made" info' "trace' @ made"] by (simp add: r rd Some Inr)
    qed
  qed
qed

lemma GetLaureateDetailsByName_keep:
  "snd (GetLaureateDetailsByName (keep_documents (readable R parser) R) parser lower fn sn)
     = snd (GetLaureateDetailsByName R parser lower fn sn)"
proof -
  define q where
    "q = js ''@firstname:=='' @ [0x22] @ fn @ [0x22] @ js '' @surname:=='' @ [0x22] @ sn @ [0x22]"
  show ?thesis
  proof (cases "ft_search R (js ''idx:prizes'') q name_fields")
    case (Inl e)
    then show ?thesis
      unfolding GetLaureateDetailsByName_def Let_def q_def [symmetric]
      by (simp add: ft_search_keep_documents)
  next
    case (Inr results)
    let ?call = "FtSearch (js ''idx:prizes'') q name_fields"
    let ?a = "name_loop R parser lower fn sn (documents results) [?call] []"
    let ?b = "name_loop R parser lower fn sn (filter (readable R parser) (documents results)) [?call] []"
    have eq: "snd ?a = snd ?b" by (rule name_loop_skip)
    obtain ta ra where a: "?a = (ta, ra)" by (cases ?a)
    obtain tb rb where b: "?b = (tb, rb)" by (cases ?b)
    from eq a b have r: "rb = ra" by simp
    show ?thesis
      unfolding GetLaureateDetailsByName_def Let_def q_def [symmetric]
      by (cases ra) (simp_all add: ft_search_keep_documents Inr name_loop_keep a b r)
  qed
qed

lemma match_document_throws:
  assumes "parse_laureates parser doc = JArr ls" "l \<in> set ls" "\<not> has_motivation l"
  shows "\<exists>e. match_document parser lower keyword doc acc = Inl e"
proof -
  have "\<exists>e. forEach (match_laureate lower keyword doc) ls acc = Inl e"
    using assms(2) by (rule forEach_throws) (simp add: match_laureate_unreadable [OF assms(3)])
  then show ?thesis
    by (simp add: match_document_def assms(1) as_array_def)
qed

lemma parse_peace_2013: "parse_laureates tiny_parser peace_2013 = JArr [JObj []]"
  by (simp add: parse_laureates_def JSON_parse_def field_def peace_2013_def prize_document_def
        tiny_parser_def js_def)

lemma empty_entry_no_motivation: "\<not> has_motivation (JObj [])"
  by (simp add: has_motivation_def property_def)

text \<open>
  Claim C6 says that a failure on one laureate entry is contained at that entry.  In
  \<open>CountLaureatesByMotivationKeyword\<close> an entry without \<open>motivation\<close> in the first of two
  documents makes the whole call fail with an internal error, although the second
  document has a matching laureate; in \<open>GetLaureateDetailsByName\<close> an entry whose first
  name matches and that has no \<open>surname\<close> does the same.
\<close>

theorem entry_failure_fails_the_call:
  "CountLaureatesByMotivationKeyword (store_with [peace_2013, physics_2018]) tiny_parser
       ascii_lower (js ''development'')
     = ([FtSearch (js ''idx:prizes'') (js ''@motivation:(development)'') return_fields],
        Failed INTERNAL (js ''Internal server error''))
   \<and> GetLaureateDetailsByName peace_store tiny_parser ascii_lower (js ''Memorial'') (js ''Bialiatski'')
     = ([FtSearch (js ''idx:prizes'')
           (js ''@firstname:=='' @ [0x22] @ js ''Memorial'' @ [0x22]
              @ js '' @surname:=='' @ [0x22] @ js ''Bialiatski'' @ [0x22])
           name_fields,
         JsonGet (Some (js ''prize:2022:peace:1''))],
        Failed INTERNAL (js ''Internal server error''))"
proof -
  have m: "match_document tiny_parser ascii_lower (js ''development'') peace_2013 (0, [])
      = Inl TypeError"
    by (simp add: match_document_def parse_peace_2013 as_array_def
          match_laureate_unreadable [OF empty_entry_no_motivation])
  have nb: "\<not> (js ''development'' = [] \<or> trim (js ''development'') = [])"
    by (simp add: trim_def js_def isWhiteSpace_def)
  have a: "CountLaureatesByMotivationKeyword (store_with [peace_2013, physics_2018]) tiny_parser
       ascii_lower (js ''development'')
     = ([FtSearch (js ''idx:prizes'') (js ''@motivation:(development)'') return_fields],
        Failed INTERNAL (js ''Internal server error''))"
  proof -
    have s: "ft_search (store_with [peace_2013, physics_2018]) i q opts
        = Inr \<lparr>total = 2, documents = [peace_2013, physics_2018]\<rparr>" for i q opts
      by (simp add: store_with_def)
    have fe: "forEach (match_document tiny_parser ascii_lower (js ''development''))
        (documents \<lparr>total = 2, documents = [peace_2013, physics_2018]\<rparr>) (0, []) = Inl TypeError"
      by (simp only: search_reply.simps forEach.simps m sum.case)
    show ?thesis
      unfolding CountLaureatesByMotivationKeyword_def Let_def
      by (simp only: nb if_False s sum.case fe) (simp add: js_def)
  qed
  have rd: "read_document peace_store tiny_parser peace_2022
      = ([JsonGet (Some (js ''prize:2022:peace:1''))], Some peace_2022_body)"
    by (simp add: read_document_def field_def peace_2022_def peace_store_def js_def)
  have sc: "scan_document ascii_lower (js ''Memorial'') (js ''Bialiatski'') peace_2022_body []
      = Inl TypeError"
    by (simp add: scan_document_def peace_2022_body_def property_def laureate_matches_def
          toLowerCase_def ascii_lower_def js_def)
  have b: "GetLaureateDetailsByName peace_store tiny_parser ascii_lower (js ''Memorial'') (js ''Bialiatski'')
     = ([FtSearch (js ''idx:prizes'')
           (js ''@firstname:=='' @ [0x22] @ js ''Memorial'' @ [0x22]
              @ js '' @surname:=='' @ [0x22] @ js ''Bialiatski'' @ [0x22])
           name_fields,
         JsonGet (Some (js ''prize:2022:peace:1''))],
        Failed INTERNAL (js ''Internal server error''))"
  proof -
    have ne: "\<not> (js ''Memorial'' = [] \<or> js ''Bialiatski'' = [])"
      by (simp add: js_def)
    have s: "ft_search peace_store i q opts = Inr \<lparr>total = 1, documents = [peace_2022]\<rparr>" for i q opts
      by (simp add: peace_store_def)
    show ?thesis
      unfolding GetLaureateDetailsByName_def Let_def
      by (simp only: ne if_False s sum.case search_reply.simps name_loop.simps rd sc
            prod.case option.case)
         simp
  qed
  from a b show ?thesis by blast
qed

text \<open>
  Claim C6, as the code has it.  What is contained is a failure to parse the stored
  laureates text of a document, and in \<open>GetLaureateDetailsByName\<close> a failure to parse or
  fetch the body of a document.  In the two counting operations such a document counts
  as having no laureates: the result is the same as for a store that does not return
  it, so the other documents are processed and the reply is unchanged.  In
  \<open>GetPrizesByCategory\<close> its prize is returned with an empty list of laureates.  In
  \<open>GetLaureateDetailsByName\<close> a document whose body cannot be read is skipped: the reply
  is the same as for a store that does not return it.  A failure on a laureate entry
  is not contained: in \<open>CountLaureatesByMotivationKeyword\<close> an entry without a string
  \<open>motivation\<close>, in any returned document, makes the call reply with an internal error.
\<close>

theorem parse_failures_contained:
  "CountLaureatesByMotivationKeyword (keep_documents (parses parser) R) parser lower keyword
     = CountLaureatesByMotivationKeyword R parser lower keyword
   \<and> CountLaureatesByCategoryAndYearRange (keep_documents (parses parser) R) parser request
     = CountLaureatesByCategoryAndYearRange R parser request
   \<and> (\<not> parses parser doc \<longrightarrow>
        prize_of_document parser doc
          = Inr \<lparr>p_year = field doc (js ''$.year''), p_category = field doc (js ''$.category''),
                 p_laureates = []\<rparr>)
   \<and> snd (GetLaureateDetailsByName (keep_documents (readable R parser) R) parser lower fn sn)
     = snd (GetLaureateDetailsByName R parser lower fn sn)
   \<and> (\<not> list_all isWhiteSpace keyword
        \<and> ft_search R (js ''idx:prizes'') (js ''@motivation:('' @ keyword @ js '')'') return_fields
            = Inr results
        \<and> doc' \<in> set (documents results)
        \<and> parse_laureates parser doc' = JArr ls \<and> l \<in> set ls \<and> \<not> has_motivation l \<longrightarrow>
        snd (CountLaureatesByMotivationKeyword R parser lower keyword)
          = Failed INTERNAL (js ''Internal server error''))"
proof -
  have e: "snd (CountLaureatesByMotivationKeyword R parser lower keyword)
          = Failed INTERNAL (js ''Internal server error'')"
    if nb: "\<not> list_all isWhiteSpace keyword"
      and s: "ft_search R (js ''idx:prizes'') (js ''@motivation:('' @ keyword @ js '')'') return_fields
            = Inr results"
      and d: "doc' \<in> set (documents results)"
      and p: "parse_laureates parser doc' = JArr ls" "l \<in> set ls" "\<not> has_motivation l"
  proof -
    have nb': "\<not> (keyword = [] \<or> trim keyword = [])"
      using nb by (simp add: blank_keyword)
    have "\<exists>e. forEach (match_document parser lower keyword) (documents results) (0, []) = Inl e"
      using d by (rule forEach_throws) (rule match_document_throws [OF p])
    then obtain e where
      "forEach (match_document parser lower keyword) (documents results) (0, []) = Inl e" ..
    then show ?thesis
      unfolding CountLaureatesByMotivationKeyword_def Let_def
      by (simp only: nb' if_False s sum.case snd_conv)
  qed
  from CountLaureatesByMotivationKeyword_keep [of parser R lower keyword]
       CountLaureatesByCategoryAndYearRange_keep [of parser R request]
       prize_of_document_unparsable [of parser doc]
       GetLaureateDetailsByName_keep [of R parser lower fn sn] e
  show ?thesis by blast
qed

theorem parse_failures_contained_witness:
  "\<not> parses tiny_parser unparsable_2014
   \<and> prize_of_document tiny_parser unparsable_2014
       = Inr \<lparr>p_year = Some (js ''2014''), p_category = Some (js ''peace''), p_laureates = []\<rparr>
   \<and> \<not> has_motivation (JObj [])
   \<and> snd (CountLaureatesByMotivationKeyword (store_with [physics_2018, peace_2013]) tiny_parser
           ascii_lower (js ''development''))
       = Failed INTERNAL (js ''Internal server error'')"
proof -
  have u: "\<not> parses tiny_parser unparsable_2014"
    by (simp add: parses_def JSON_parse_def field_def unparsable_2014_def prize_document_def
          tiny_parser_def two_motivations_def js_def)
  have f: "field unparsable_2014 (js ''$.year'') = Some (js ''2014'')"
      "field unparsable_2014 (js ''$.category'') = Some (js ''peace'')"
    by (simp_all add: field_def unparsable_2014_def prize_document_def js_def)
  have nb: "\<not> list_all isWhiteSpace (js ''development'')"
    by (simp add: js_def isWhiteSpace_def)
  have s: "ft_search (store_with [physics_2018, peace_2013]) (js ''idx:prizes'')
        (js ''@motivation:('' @ js ''development'' @ js '')'') return_fields
      = Inr \<lparr>total = 2, documents = [physics_2018, peace_2013]\<rparr>"
    by (simp add: store_with_def)
  have d: "peace_2013 \<in> set (documents \<lparr>total = 2, documents = [physics_2018, peace_2013]\<rparr>)"
    by simp
  have l: "JObj [] \<in> set [JObj []]" by simp
  note T = parse_failures_contained
      [of tiny_parser "store_with [physics_2018, peace_2013]" ascii_lower "js ''development''"
          "\<lparr>req_category = js ''peace'', startYear = 2013, endYear = 2023\<rparr>" unparsable_2014
          "js ''Memorial''" "js ''Bialiatski''"
          "\<lparr>total = 2, documents = [physics_2018, peace_2013]\<rparr>" peace_2013 "[JObj []]" "JObj []"]
  from T u have a: "prize_of_document tiny_parser unparsable_2014
      = Inr \<lparr>p_year = field unparsable_2014 (js ''$.year''),
             p_category = field unparsable_2014 (js ''$.category''), p_laureates = []\<rparr>"
    by blast
  from T nb s d parse_peace_2013 l empty_entry_no_motivation
  have b: "snd (CountLaureatesByMotivationKeyword (store_with [physics_2018, peace_2013]) tiny_parser
           ascii_lower (js ''development''))
       = Failed INTERNAL (js ''Internal server error'')"
    by blast
  from u a [unfolded f] empty_entry_no_motivation b show ?thesis by blast
qed

end
